theory Spec2Isabelle
  imports Complex_Main "HOL-Library.Multiset"
begin

section \<open>Python values used by \<^verbatim>\<open>backend/app/main.py\<close>\<close>

text \<open>
  The exceptions that the modelled code can raise. Every one of them is a subclass of
  Python's \<^verbatim>\<open>Exception\<close>. \<open>OSError\<close>, \<open>PermissionError\<close> and \<open>JSONDecodeError\<close>
  stand for a failure of the file system calls and of \<^verbatim>\<open>json.load\<close>.
\<close>

datatype py_error =
    AttributeError | TypeError | ValueError | OverflowError
  | OSError | PermissionError | JSONDecodeError

text \<open>
  A Python \<^verbatim>\<open>float\<close>. A finite float is represented by the rational number it denotes;
  rounding to the nearest double and overflow to infinity are not modelled, the two
  infinities and NaN are.
\<close>

datatype pyfloat = Fin rat | PInf | NInf | NaN

text \<open>Python's \<^verbatim>\<open>a < b\<close> on floats: every comparison with NaN is false.\<close>

fun fl_lt :: "pyfloat \<Rightarrow> pyfloat \<Rightarrow> bool" where
  "fl_lt NaN _ = False"
| "fl_lt _ NaN = False"
| "fl_lt (Fin a) (Fin b) = (a < b)"
| "fl_lt (Fin _) PInf = True"
| "fl_lt (Fin _) NInf = False"
| "fl_lt PInf _ = False"
| "fl_lt NInf NInf = False"
| "fl_lt NInf _ = True"

text \<open>Python's \<^verbatim>\<open>a <= b\<close> on floats.\<close>

definition fl_le :: "pyfloat \<Rightarrow> pyfloat \<Rightarrow> bool" where
  "fl_le a b = (a \<noteq> NaN \<and> b \<noteq> NaN \<and> \<not> fl_lt b a)"

text \<open>Python's \<^verbatim>\<open>a + b\<close> on floats (exact on finite values).\<close>

fun fl_add :: "pyfloat \<Rightarrow> pyfloat \<Rightarrow> pyfloat" where
  "fl_add NaN _ = NaN"
| "fl_add _ NaN = NaN"
| "fl_add (Fin a) (Fin b) = Fin (a + b)"
| "fl_add PInf NInf = NaN"
| "fl_add NInf PInf = NaN"
| "fl_add PInf _ = PInf"
| "fl_add _ PInf = PInf"
| "fl_add NInf _ = NInf"
| "fl_add _ NInf = NInf"

subsection \<open>Strings\<close>

text \<open>
  Strings are byte strings; the model covers ASCII text. \<open>is_space\<close> is
  \<^verbatim>\<open>str.isspace\<close> on ASCII: tab, line feed, vertical tab, form feed, carriage return,
  the four separators \<^verbatim>\<open>0x1c\<close> to \<^verbatim>\<open>0x1f\<close>, and the blank.
\<close>

definition is_space :: "char \<Rightarrow> bool" where
  "is_space c = (c \<in> set [CHR 0x09, CHR 0x0A, CHR 0x0B, CHR 0x0C, CHR 0x0D,
                           CHR 0x1C, CHR 0x1D, CHR 0x1E, CHR 0x1F, CHR '' ''])"

text \<open>\<^verbatim>\<open>s.strip()\<close>\<close>

definition strip :: "string \<Rightarrow> string" where
  "strip s = rev (dropWhile is_space (rev (dropWhile is_space s)))"

text \<open>\<^verbatim>\<open>s.replace(c, "")\<close> for a one-character \<^verbatim>\<open>c\<close>\<close>

definition remove_char :: "char \<Rightarrow> string \<Rightarrow> string" where
  "remove_char c s = filter (\<lambda>x. x \<noteq> c) s"

text \<open>\<^verbatim>\<open>s.lower()\<close> on ASCII\<close>

definition lower_char :: "char \<Rightarrow> char" where
  "lower_char c =
     (case map_of (zip ''ABCDEFGHIJKLMNOPQRSTUVWXYZ'' ''abcdefghijklmnopqrstuvwxyz'') c of
        Some l \<Rightarrow> l
      | None \<Rightarrow> c)"

definition lower :: "string \<Rightarrow> string" where
  "lower s = map lower_char s"

subsection \<open>The builtin \<^verbatim>\<open>float(s)\<close> on a string\<close>

text \<open>
  \<^verbatim>\<open>float\<close> is a builtin of the language, not code of the repository. It is modelled
  after the language reference: surrounding whitespace is ignored; an underscore may
  stand between two digits; then an optional sign and either \<^verbatim>\<open>inf\<close>, \<^verbatim>\<open>infinity\<close>,
  \<^verbatim>\<open>nan\<close> (in any case) or a decimal number with an optional exponent. Anything else
  raises \<open>ValueError\<close>.
\<close>

definition digit_of :: "char \<Rightarrow> nat option" where
  "digit_of c = map_of (zip ''0123456789'' [0, 1, 2, 3, 4, 5, 6, 7, 8, 9]) c"

definition is_digit :: "char \<Rightarrow> bool" where
  "is_digit c = (digit_of c \<noteq> None)"

text \<open>The value of a run of decimal digits, most significant first.\<close>

definition digits_val :: "string \<Rightarrow> nat" where
  "digits_val ds = foldl (\<lambda>a c. 10 * a + (case digit_of c of Some d \<Rightarrow> d | None \<Rightarrow> 0)) 0 ds"

text \<open>
  Underscores are only allowed after a digit and before a digit; \<open>prev\<close> is the
  previous character, if any.
\<close>

fun underscores_ok :: "char option \<Rightarrow> string \<Rightarrow> bool" where
  "underscores_ok prev [] = (prev \<noteq> Some CHR ''_'')"
| "underscores_ok prev (c # cs) =
     (if c = CHR ''_''
      then (case prev of Some p \<Rightarrow> is_digit p | None \<Rightarrow> False) \<and> underscores_ok (Some c) cs
      else (prev = Some CHR ''_'' \<longrightarrow> is_digit c) \<and> underscores_ok (Some c) cs)"

text \<open>An optional sign: the flag says whether it was a minus.\<close>

fun split_sign :: "string \<Rightarrow> bool \<times> string" where
  "split_sign [] = (False, [])"
| "split_sign (c # cs) =
     (if c = CHR ''-'' then (True, cs)
      else if c = CHR ''+'' then (False, cs)
      else (False, c # cs))"

text \<open>The exponent part: empty, or \<^verbatim>\<open>e\<close>/\<^verbatim>\<open>E\<close>, an optional sign and at least one digit.\<close>

definition exponent_of :: "string \<Rightarrow> int option" where
  "exponent_of r =
     (case r of
        [] \<Rightarrow> Some 0
      | c # cs \<Rightarrow>
          if c = CHR ''e'' \<or> c = CHR ''E''
          then (let (neg, ds) = split_sign cs
                in if ds \<noteq> [] \<and> list_all is_digit ds
                   then Some (if neg then - int (digits_val ds) else int (digits_val ds))
                   else None)
          else None)"

text \<open>\<open>m \<cdot> 10\<^sup>e\<close> as a rational.\<close>

definition scale10 :: "nat \<Rightarrow> int \<Rightarrow> rat" where
  "scale10 m e = (if 0 \<le> e then of_nat m * 10 ^ nat e else of_nat m / 10 ^ nat (- e))"

text \<open>A decimal number without sign: integer part, optional fraction, optional exponent.\<close>

definition decimal_of :: "string \<Rightarrow> rat option" where
  "decimal_of r =
     (let ip = takeWhile is_digit r;
          r1 = dropWhile is_digit r;
          has_point = (r1 \<noteq> [] \<and> hd r1 = CHR ''.'');
          fp = (if has_point then takeWhile is_digit (tl r1) else []);
          r2 = (if has_point then dropWhile is_digit (tl r1) else r1)
      in if ip = [] \<and> fp = [] then None
         else (case exponent_of r2 of
                 None \<Rightarrow> None
               | Some e \<Rightarrow> Some (scale10 (digits_val (ip @ fp)) (e - int (length fp)))))"

definition py_float_str :: "string \<Rightarrow> py_error + pyfloat" where
  "py_float_str s =
     (let t = strip s in
      if \<not> underscores_ok None t then Inl ValueError
      else
        (let (neg, r) = split_sign (remove_char CHR ''_'' t) in
         if lower r = ''inf'' \<or> lower r = ''infinity'' then Inr (if neg then NInf else PInf)
         else if lower r = ''nan'' then Inr NaN
         else (case decimal_of r of
                 None \<Rightarrow> Inl ValueError
               | Some q \<Rightarrow> Inr (Fin (if neg then - q else q)))))"

section \<open>ChargeParser: \<^verbatim>\<open>parse_charge\<close>\<close>

text \<open>
  \<^verbatim>\<open>
  def parse_charge(charge_str: Optional[str]) -> float:
      if not charge_str:
          return 0.0
      cleaned = charge_str.replace("$", "").replace(",", "").strip()
      try:
          return float(cleaned)
      except ValueError:
          return 0.0
  \<close>
  The result is a sum so that an exception which is not caught would show as \<open>Inl\<close>.
\<close>

definition cleaned :: "string \<Rightarrow> string" where
  "cleaned charge_str = strip (remove_char CHR '','' (remove_char CHR ''$'' charge_str))"

definition parse_charge :: "string option \<Rightarrow> py_error + pyfloat" where
  "parse_charge charge_str =
     (case charge_str of
        None \<Rightarrow> Inr (Fin 0)
      | Some s \<Rightarrow>
          if s = [] then Inr (Fin 0)
          else (case py_float_str (cleaned s) of
                  Inl ValueError \<Rightarrow> Inr (Fin 0)
                | Inl e \<Rightarrow> Inl e
                | Inr v \<Rightarrow> Inr v))"


section \<open>JSON values\<close>

text \<open>
  What \<^verbatim>\<open>json.load\<close> returns: \<^verbatim>\<open>None\<close>, a \<^verbatim>\<open>bool\<close>, an \<^verbatim>\<open>int\<close>, a \<^verbatim>\<open>float\<close>,
  a \<^verbatim>\<open>str\<close>, a \<^verbatim>\<open>list\<close> or a \<^verbatim>\<open>dict\<close> with string keys. A dict is an association list
  in insertion order; \<^verbatim>\<open>json.load\<close> keeps one member per key.
\<close>

datatype json =
    JNull
  | JBool bool
  | JInt int
  | JFloat pyfloat
  | JStr string
  | JList "json list"
  | JDict "(string \<times> json) list"

text \<open>\<^verbatim>\<open>x.get(k, d)\<close>: only a dict has the method.\<close>

fun py_get :: "json \<Rightarrow> string \<Rightarrow> json \<Rightarrow> py_error + json" where
  "py_get (JDict kvs) k d = Inr (case map_of kvs k of Some v \<Rightarrow> v | None \<Rightarrow> d)"
| "py_get _ k d = Inl AttributeError"

text \<open>
  \<^verbatim>\<open>for x in v\<close>: a list yields its items, a string its characters, a dict its keys;
  nothing else is iterable.
\<close>

fun py_iter :: "json \<Rightarrow> py_error + json list" where
  "py_iter (JList xs) = Inr xs"
| "py_iter (JStr s) = Inr (map (\<lambda>c. JStr [c]) s)"
| "py_iter (JDict kvs) = Inr (map (\<lambda>kv. JStr (fst kv)) kvs)"
| "py_iter _ = Inl TypeError"

text \<open>\<^verbatim>\<open>bool(v)\<close>\<close>

fun truthy :: "json \<Rightarrow> bool" where
  "truthy JNull = False"
| "truthy (JBool b) = b"
| "truthy (JInt i) = (i \<noteq> 0)"
| "truthy (JFloat f) = (f \<noteq> Fin 0)"
| "truthy (JStr s) = (s \<noteq> [])"
| "truthy (JList xs) = (xs \<noteq> [])"
| "truthy (JDict kvs) = (kvs \<noteq> [])"

text \<open>\<^verbatim>\<open>bool(s)\<close> for an \<^verbatim>\<open>Optional[str]\<close>: \<^verbatim>\<open>None\<close> and the empty string are false.\<close>

fun opt_truthy :: "string option \<Rightarrow> bool" where
  "opt_truthy None = False"
| "opt_truthy (Some s) = (s \<noteq> [])"

text \<open>
  \<^verbatim>\<open>float(v)\<close>. An integer whose nearest double would be \<open>2\<^sup>1\<^sup>0\<^sup>2\<^sup>4\<close> or more raises
  \<open>OverflowError\<close>: these are the integers from \<open>2\<^sup>1\<^sup>0\<^sup>2\<^sup>4 - 2\<^sup>9\<^sup>7\<^sup>0\<close> on.
\<close>

definition float_int_bound :: int where
  "float_int_bound = 2 ^ 1024 - 2 ^ 970"

fun py_float :: "json \<Rightarrow> py_error + pyfloat" where
  "py_float JNull = Inl TypeError"
| "py_float (JBool b) = Inr (Fin (if b then 1 else 0))"
| "py_float (JInt i) =
     (if \<bar>i\<bar> < float_int_bound then Inr (Fin (of_int i)) else Inl OverflowError)"
| "py_float (JFloat f) = Inr f"
| "py_float (JStr s) = py_float_str s"
| "py_float (JList xs) = Inl TypeError"
| "py_float (JDict kvs) = Inl TypeError"

text \<open>
  \<^verbatim>\<open>v.lower()\<close>: only a string has the method.
\<close>

fun py_lower :: "json \<Rightarrow> py_error + string" where
  "py_lower (JStr s) = Inr (lower s)"
| "py_lower _ = Inl AttributeError"

text \<open>
  \<^verbatim>\<open>v[:n]\<close> and then iterating the slice: strings and lists can be sliced, everything
  else raises (for a dict the exception is \<open>TypeError\<close> up to Python 3.11).
\<close>

fun py_take :: "nat \<Rightarrow> json \<Rightarrow> py_error + json list" where
  "py_take n (JList xs) = Inr (take n xs)"
| "py_take n (JStr s) = Inr (map (\<lambda>c. JStr [c]) (take n s))"
| "py_take n _ = Inl TypeError"

text \<open>\<^verbatim>\<open>len(v)\<close> for the values that have a length.\<close>

fun py_len :: "json \<Rightarrow> py_error + nat" where
  "py_len (JList xs) = Inr (length xs)"
| "py_len (JStr s) = Inr (length s)"
| "py_len (JDict kvs) = Inr (length kvs)"
| "py_len _ = Inl TypeError"

text \<open>\<^verbatim>\<open>xs[:limit]\<close> on a list, for any integer: a negative bound counts from the end.\<close>

definition py_slice_to :: "int \<Rightarrow> 'a list \<Rightarrow> 'a list" where
  "py_slice_to limit xs =
     (if 0 \<le> limit then take (nat limit) xs else take (length xs - nat (- limit)) xs)"

text \<open>Sequencing of computations that may raise.\<close>

definition bind_e :: "py_error + 'a \<Rightarrow> ('a \<Rightarrow> py_error + 'b) \<Rightarrow> py_error + 'b" where
  "bind_e m f = (case m of Inl e \<Rightarrow> Inl e | Inr v \<Rightarrow> f v)"

text \<open>A list comprehension whose element expression, or condition, may raise.\<close>

fun map_e :: "('a \<Rightarrow> py_error + 'b) \<Rightarrow> 'a list \<Rightarrow> py_error + 'b list" where
  "map_e f [] = Inr []"
| "map_e f (x # xs) = bind_e (f x) (\<lambda>y. bind_e (map_e f xs) (\<lambda>ys. Inr (y # ys)))"

fun filter_e :: "('a \<Rightarrow> py_error + bool) \<Rightarrow> 'a list \<Rightarrow> py_error + 'a list" where
  "filter_e p [] = Inr []"
| "filter_e p (x # xs) =
     bind_e (p x) (\<lambda>b. bind_e (filter_e p xs) (\<lambda>ys. Inr (if b then x # ys else ys)))"

section \<open>ChargeIndex: \<^verbatim>\<open>HCPCS_DATABASE\<close> and \<^verbatim>\<open>load_hcpcs_database\<close>\<close>

text \<open>
  The keys of a Python dict are compared by hash and equality: \<^verbatim>\<open>True\<close>, \<^verbatim>\<open>1\<close> and
  \<^verbatim>\<open>1.0\<close> are one key, a string is equal only to the same string, and lists and dicts
  cannot be keys (\<open>TypeError\<close>). \<^verbatim>\<open>json.load\<close> decodes every \<^verbatim>\<open>NaN\<close> to one shared
  object, which a dict finds by identity. \<open>key_of\<close> maps a value to what the dict
  compares.
\<close>

datatype pykey = KNone | KNum pyfloat | KStr string

fun key_of :: "json \<Rightarrow> py_error + pykey" where
  "key_of JNull = Inr KNone"
| "key_of (JBool b) = Inr (KNum (Fin (if b then 1 else 0)))"
| "key_of (JInt i) = Inr (KNum (Fin (of_int i)))"
| "key_of (JFloat f) = Inr (KNum f)"
| "key_of (JStr s) = Inr (KStr s)"
| "key_of (JList xs) = Inl TypeError"
| "key_of (JDict kvs) = Inl TypeError"

text \<open>
  The value stored for a code: the dict literal of \<^verbatim>\<open>load_hcpcs_database\<close> always has
  these four keys, so it is a record.
\<close>

record db_entry =
  e_description :: json
  e_code :: json
  e_standard_charges :: json
  e_revenue_code :: json

text \<open>
  \<^verbatim>\<open>HCPCS_DATABASE\<close>: a dict in insertion order, from the code to its entry.
\<close>

type_synonym index = "(json \<times> db_entry) list"

text \<open>\<^verbatim>\<open>HCPCS_DATABASE.get(k)\<close>; \<^verbatim>\<open>k in HCPCS_DATABASE\<close> is whether it finds an entry.\<close>

definition db_find :: "index \<Rightarrow> json \<Rightarrow> py_error + db_entry option" where
  "db_find db k =
     bind_e (key_of k) (\<lambda>h. Inr (map_option snd (find (\<lambda>ke. key_of (fst ke) = Inr h) db)))"

text \<open>
  \<^verbatim>\<open>next((c.get('code') for c in codes if c.get('type') == 'RC'), None)\<close>: the scan stops
  at the first code tagged \<^verbatim>\<open>RC\<close>.
\<close>

fun first_rc :: "json list \<Rightarrow> py_error + json" where
  "first_rc [] = Inr JNull"
| "first_rc (c # cs) =
     bind_e (py_get c ''type'' JNull) (\<lambda>t.
       if t = JStr ''RC'' then py_get c ''code'' JNull else first_rc cs)"

text \<open>
  The loops of \<^verbatim>\<open>load_hcpcs_database\<close> update the global dict in place, so an exception
  leaves the dict as it was when it was raised.
\<close>

datatype outcome = Completed index | Raised py_error index

fun index_of :: "outcome \<Rightarrow> index" where
  "index_of (Completed db) = db"
| "index_of (Raised e db) = db"

definition then_do :: "py_error + 'a \<Rightarrow> index \<Rightarrow> ('a \<Rightarrow> outcome) \<Rightarrow> outcome" where
  "then_do m db f = (case m of Inl e \<Rightarrow> Raised e db | Inr v \<Rightarrow> f v)"

text \<open>
  The body of the inner loop:
  \<^verbatim>\<open>
  if code_info.get('type') == 'HCPCS':
      code = code_info.get('code')
      if code:
          if code not in HCPCS_DATABASE:
              HCPCS_DATABASE[code] = {
                  'description': entry.get('description'),
                  'code': code,
                  'standard_charges': entry.get('standard_charges', []),
                  'revenue_code': next((c.get('code') for c in codes if c.get('type') == 'RC'), None)
              }
  \<close>
\<close>

definition make_entry :: "json \<Rightarrow> json list \<Rightarrow> json \<Rightarrow> py_error + db_entry" where
  "make_entry entry codes code =
     bind_e (py_get entry ''description'' JNull) (\<lambda>d.
     bind_e (py_get entry ''standard_charges'' (JList [])) (\<lambda>sc.
     bind_e (first_rc codes) (\<lambda>rc.
       Inr \<lparr>e_description = d, e_code = code, e_standard_charges = sc, e_revenue_code = rc\<rparr>)))"

definition index_code :: "json \<Rightarrow> json list \<Rightarrow> json \<Rightarrow> index \<Rightarrow> outcome" where
  "index_code entry codes code_info db =
     then_do (py_get code_info ''type'' JNull) db (\<lambda>t.
       if t \<noteq> JStr ''HCPCS'' then Completed db
       else then_do (py_get code_info ''code'' JNull) db (\<lambda>code.
         if \<not> truthy code then Completed db
         else then_do (db_find db code) db (\<lambda>present.
           if present \<noteq> None then Completed db
           else then_do (make_entry entry codes code) db (\<lambda>e.
                  Completed (db @ [(code, e)])))))"

text \<open>\<^verbatim>\<open>for code_info in codes: ...\<close>\<close>

fun index_codes :: "json \<Rightarrow> json list \<Rightarrow> json list \<Rightarrow> index \<Rightarrow> outcome" where
  "index_codes entry codes [] db = Completed db"
| "index_codes entry codes (code_info # rest) db =
     (case index_code entry codes code_info db of
        Raised e db' \<Rightarrow> Raised e db'
      | Completed db' \<Rightarrow> index_codes entry codes rest db')"

text \<open>
  The body of the outer loop: \<^verbatim>\<open>codes = entry.get('code_information', [])\<close>, then the
  inner loop over \<^verbatim>\<open>codes\<close>.
\<close>

definition index_entry :: "json \<Rightarrow> index \<Rightarrow> outcome" where
  "index_entry entry db =
     then_do (py_get entry ''code_information'' (JList [])) db (\<lambda>codes.
     then_do (py_iter codes) db (\<lambda>cs. index_codes entry cs cs db))"

text \<open>\<^verbatim>\<open>for entry in data.get('standard_charge_information', []): ...\<close>\<close>

fun index_entries :: "json list \<Rightarrow> index \<Rightarrow> outcome" where
  "index_entries [] db = Completed db"
| "index_entries (entry # rest) db =
     (case index_entry entry db of
        Raised e db' \<Rightarrow> Raised e db'
      | Completed db' \<Rightarrow> index_entries rest db')"

definition index_data :: "json \<Rightarrow> index \<Rightarrow> outcome" where
  "index_data data db =
     then_do (py_get data ''standard_charge_information'' (JList [])) db (\<lambda>sci.
     then_do (py_iter sci) db (\<lambda>entries. index_entries entries db))"

text \<open>
  The file \<^verbatim>\<open>assets/ucsf_standard_charges.json\<close> as the function finds it:
  \<^verbatim>\<open>assets_path.exists()\<close> itself raises (up to Python 3.13 it passes on every
  \<^verbatim>\<open>OSError\<close> but the few that mean absence, such as the \<open>PermissionError\<close> of a
  directory that cannot be searched); or it returns false; or it returns true and
  \<^verbatim>\<open>open\<close> or \<^verbatim>\<open>json.load\<close> raises; or the file is decoded to a value.
\<close>

datatype source_file = Inaccessible py_error | Absent | Unreadable py_error | Parsed json

text \<open>The records that the function writes to the logger, with their level.\<close>

datatype log_level = INFO | WARNING | ERROR

datatype log_record =
    Loading_from_path
  | Database_not_found
  | Parsing_codes
  | Successfully_loaded nat
  | Error_loading py_error

fun level :: "log_record \<Rightarrow> log_level" where
  "level Loading_from_path = INFO"
| "level Database_not_found = WARNING"
| "level Parsing_codes = INFO"
| "level (Successfully_loaded n) = INFO"
| "level (Error_loading e) = ERROR"

record state =
  HCPCS_DATABASE :: index
  logged :: "log_record list"

definition log_to :: "log_record \<Rightarrow> state \<Rightarrow> state" where
  "log_to r st = st\<lparr>logged := logged st @ [r]\<rparr>"

text \<open>
  \<^verbatim>\<open>
  def load_hcpcs_database():
      global HCPCS_DATABASE
      logger.info(f"Loading HCPCS database from {assets_path}")
      if not assets_path.exists():
          logger.warning(f"HCPCS database not found at {assets_path}")
          return
      try:
          with open(assets_path, 'r') as f:
              data = json.load(f)
          logger.info(f"Parsing HCPCS codes from JSON data...")
          for entry in data.get('standard_charge_information', []):
              ...
          logger.info(f"... Successfully loaded {len(HCPCS_DATABASE)} HCPCS codes ...")
      except Exception as e:
          logger.error(f"Error loading HCPCS database: {e}")
  \<close>
  The test \<^verbatim>\<open>assets_path.exists()\<close> stands before the \<^verbatim>\<open>try\<close>: an exception that it
  raises leaves the function. Inside the \<^verbatim>\<open>try\<close>, \<^verbatim>\<open>except Exception\<close> catches every
  \<open>py_error\<close>. The result says whether the function returned or an exception left it,
  and with which state.
\<close>

datatype load_result = Returned state | Propagated py_error state

definition load_hcpcs_database :: "source_file \<Rightarrow> state \<Rightarrow> load_result" where
  "load_hcpcs_database file st =
     (let st1 = log_to Loading_from_path st in
      case file of
        Inaccessible e \<Rightarrow> Propagated e st1
      | Absent \<Rightarrow> Returned (log_to Database_not_found st1)
      | Unreadable e \<Rightarrow> Returned (log_to (Error_loading e) st1)
      | Parsed data \<Rightarrow>
          (let st2 = log_to Parsing_codes st1 in
           case index_data data (HCPCS_DATABASE st2) of
             Raised e db \<Rightarrow>
               Returned (log_to (Error_loading e) (st2\<lparr>HCPCS_DATABASE := db\<rparr>))
           | Completed db \<Rightarrow>
               Returned (log_to (Successfully_loaded (length db))
                           (st2\<lparr>HCPCS_DATABASE := db\<rparr>))))"

text \<open>The module runs the function once, on the empty dict.\<close>

definition initial_state :: state where
  "initial_state = \<lparr>HCPCS_DATABASE = [], logged = []\<rparr>"


section \<open>CodeLookup: \<^verbatim>\<open>lookup_hcpcs_code\<close>\<close>

text \<open>One item of the returned \<^verbatim>\<open>standard_charges\<close> list: the five values read with \<^verbatim>\<open>charge.get\<close>.\<close>

record charge_info =
  ci_gross_charge :: json
  ci_discounted_cash :: json
  ci_setting :: json
  ci_billing_class :: json
  ci_modifiers :: json

text \<open>The two dicts that the function returns: \<^verbatim>\<open>"found": False\<close> and \<^verbatim>\<open>"found": True\<close>.\<close>

datatype lookup_result =
    Lookup_miss (lr_code: string) (lr_message: string)
  | Lookup_hit (lr_code: string) (lr_description: json) (lr_revenue_code: json)
      (lr_standard_charges: "charge_info list") (lr_num_charge_variants: nat)

fun found :: "lookup_result \<Rightarrow> bool" where
  "found (Lookup_miss c m) = False"
| "found (Lookup_hit c d r cs n) = True"

text \<open>
  The condition of the list comprehension:
  \<^verbatim>\<open>
  (not setting or c.get('setting') in ['both', setting]) and
  (not billing_class or c.get('billing_class') == billing_class)
  \<close>
  \<^verbatim>\<open>or\<close> and \<^verbatim>\<open>and\<close> evaluate their right operand only when needed.
\<close>

definition keep_charge :: "string option \<Rightarrow> string option \<Rightarrow> json \<Rightarrow> py_error + bool" where
  "keep_charge setting billing_class c =
     bind_e (if \<not> opt_truthy setting then Inr True
             else bind_e (py_get c ''setting'' JNull) (\<lambda>v.
                    Inr (v = JStr ''both'' \<or> Some v = map_option JStr setting))) (\<lambda>a.
       if \<not> a then Inr False
       else if \<not> opt_truthy billing_class then Inr True
       else bind_e (py_get c ''billing_class'' JNull) (\<lambda>v.
              Inr (Some v = map_option JStr billing_class)))"

text \<open>The dict built from one charge in the loop over \<^verbatim>\<open>filtered_charges[:5]\<close>.\<close>

definition charge_info_of :: "json \<Rightarrow> py_error + charge_info" where
  "charge_info_of charge =
     bind_e (py_get charge ''gross_charge'' JNull) (\<lambda>g.
     bind_e (py_get charge ''discounted_cash'' JNull) (\<lambda>d.
     bind_e (py_get charge ''setting'' JNull) (\<lambda>s.
     bind_e (py_get charge ''billing_class'' JNull) (\<lambda>b.
     bind_e (py_get charge ''modifiers'' JNull) (\<lambda>m.
       Inr \<lparr>ci_gross_charge = g, ci_discounted_cash = d, ci_setting = s,
            ci_billing_class = b, ci_modifiers = m\<rparr>)))))"

text \<open>
  \<^verbatim>\<open>filtered_charges[:5]\<close>, as the list the loop runs over. Without a filter it is a slice
  of the stored value itself; with a filter it is a slice of the comprehension's list.
\<close>

definition first_five :: "string option \<Rightarrow> string option \<Rightarrow> json \<Rightarrow> py_error + json list" where
  "first_five setting billing_class charges =
     (if opt_truthy setting \<or> opt_truthy billing_class
      then bind_e (py_iter charges) (\<lambda>cs.
           bind_e (filter_e (keep_charge setting billing_class) cs) (\<lambda>filtered.
           bind_e (py_len charges) (\<lambda>n. Inr (take 5 filtered))))
      else py_take 5 charges)"

text \<open>
  \<^verbatim>\<open>
  def lookup_hcpcs_code(code, setting=None, billing_class=None):
      if code not in HCPCS_DATABASE:
          return {"found": False, "code": code,
                  "message": "Code not found in UCSF standard charges database"}
      entry = HCPCS_DATABASE[code]
      charges = entry.get('standard_charges', [])
      logger.info(f"... {entry.get('description', 'No description')[:60]}...")
      filtered_charges = charges
      if setting or billing_class:
          filtered_charges = [c for c in charges if ...]
          logger.info(f"  Filtered {len(charges)} charges ...")
      charge_info = []
      for charge in filtered_charges[:5]:
          charge_info.append({...})
      return {"found": True, "code": code, "description": entry.get('description'),
              "revenue_code": entry.get('revenue_code'),
              "standard_charges": charge_info, "num_charge_variants": len(charges)}
  \<close>
  The entry always has the key \<^verbatim>\<open>description\<close>, so the default \<^verbatim>\<open>'No description'\<close> is
  never used; slicing the stored value raises \<open>TypeError\<close> unless it is a string or a list.
  Of the logger calls only the exceptions that their arguments can raise are modelled.
\<close>

definition lookup_hcpcs_code ::
    "index \<Rightarrow> string \<Rightarrow> string option \<Rightarrow> string option \<Rightarrow> py_error + lookup_result" where
  "lookup_hcpcs_code db code setting billing_class =
     bind_e (db_find db (JStr code)) (\<lambda>present.
       case present of
         None \<Rightarrow> Inr (Lookup_miss code ''Code not found in UCSF standard charges database'')
       | Some entry \<Rightarrow>
           (let charges = e_standard_charges entry in
            bind_e (py_take 60 (e_description entry)) (\<lambda>shown.
            bind_e (first_five setting billing_class charges) (\<lambda>five.
            bind_e (map_e charge_info_of five) (\<lambda>charge_info.
            bind_e (py_len charges) (\<lambda>n.
              Inr (Lookup_hit code (e_description entry) (e_revenue_code entry)
                     charge_info n)))))))"

text \<open>
  The filter of CodeLookup in the words of the specification, to be compared with
  \<open>keep_charge\<close>: keep a variant if (setting unset or the variant's setting is
  \<^verbatim>\<open>both\<close> or equals setting) and (billing class unset or the variant's billing class
  equals it). A filter is unset when it is \<^verbatim>\<open>None\<close> or the empty string, the two values
  that Python's \<^verbatim>\<open>not\<close> holds for. \<open>field\<close> is the value of a variant's field, null
  when the variant does not have it.
\<close>

fun is_dict :: "json \<Rightarrow> bool" where
  "is_dict (JDict kvs) = True"
| "is_dict _ = False"

fun field :: "json \<Rightarrow> string \<Rightarrow> json" where
  "field (JDict kvs) k = (case map_of kvs k of Some v \<Rightarrow> v | None \<Rightarrow> JNull)"
| "field _ k = JNull"




text \<open>
  What a dataset record gives the index, in the words of the specification: the record's
  list of typed codes, the HCPCS code values it carries, and the entry made of its
  description, its price variants and the first of its codes tagged \<^verbatim>\<open>RC\<close>.
\<close>

definition record_codes :: "json \<Rightarrow> json list" where
  "record_codes r =
     (case bind_e (py_get r ''code_information'' (JList [])) py_iter of
        Inr cs \<Rightarrow> cs
      | Inl e \<Rightarrow> [])"

definition tagged_hcpcs :: "json list \<Rightarrow> json list" where
  "tagged_hcpcs infos =
     filter truthy
       (map (\<lambda>ci. field ci ''code'')
          (filter (\<lambda>ci. field ci ''type'' = JStr ''HCPCS'') infos))"

definition hcpcs_codes :: "json \<Rightarrow> json list" where
  "hcpcs_codes r = tagged_hcpcs (record_codes r)"

definition dataset_records :: "json \<Rightarrow> json list" where
  "dataset_records data =
     (case bind_e (py_get data ''standard_charge_information'' (JList [])) py_iter of
        Inr rs \<Rightarrow> rs
      | Inl e \<Rightarrow> [])"

definition record_entry :: "json \<Rightarrow> json \<Rightarrow> py_error + db_entry" where
  "record_entry r code = make_entry r (record_codes r) code"

section \<open>AlternativeFinder: \<^verbatim>\<open>find_similar_cheaper_codes\<close>\<close>

text \<open>\<^verbatim>\<open>s.split()\<close>: the maximal runs of characters that are not whitespace.\<close>

fun split_acc :: "string \<Rightarrow> string \<Rightarrow> string list" where
  "split_acc cur [] = (if cur = [] then [] else [rev cur])"
| "split_acc cur (c # cs) =
     (if is_space c
      then (if cur = [] then split_acc [] cs else rev cur # split_acc [] cs)
      else split_acc (c # cur) cs)"

definition split :: "string \<Rightarrow> string list" where
  "split s = split_acc [] s"

definition common_words :: "string set" where
  "common_words = {''the'', ''a'', ''an'', ''and'', ''or'', ''for'', ''with'', ''of'', ''in'',
                   ''to'', ''from''}"

text \<open>
  \<^verbatim>\<open>
  keywords = [word.lower() for word in description.split()
              if len(word) > 3 and word.lower() not in common_words]
  \<close>
\<close>

definition keywords_of :: "string \<Rightarrow> string list" where
  "keywords_of description =
     map lower (filter (\<lambda>word. length word > 3 \<and> lower word \<notin> common_words)
                  (split description))"

text \<open>\<^verbatim>\<open>keyword in entry_desc\<close>: the keyword occurs as a contiguous part.\<close>

fun starts_with :: "string \<Rightarrow> string \<Rightarrow> bool" where
  "starts_with [] ys = True"
| "starts_with (x # xs) [] = False"
| "starts_with (x # xs) (y # ys) = (x = y \<and> starts_with xs ys)"

fun contains :: "string \<Rightarrow> string \<Rightarrow> bool" where
  "contains k [] = (k = [])"
| "contains k (y # ys) = (starts_with k (y # ys) \<or> contains k ys)"

text \<open>\<^verbatim>\<open>matches = sum(1 for keyword in keywords if keyword in entry_desc)\<close>\<close>

definition count_matches :: "string list \<Rightarrow> string \<Rightarrow> nat" where
  "count_matches kws entry_desc = length (filter (\<lambda>keyword. contains keyword entry_desc) kws)"


text \<open>
  The generator
  \<^verbatim>\<open>(float(c.get('gross_charge', float('inf'))) for c in charges if c.get('gross_charge'))\<close>
  as the list of the values it yields.
\<close>

fun gross_values :: "json list \<Rightarrow> py_error + pyfloat list" where
  "gross_values [] = Inr []"
| "gross_values (c # cs) =
     bind_e (py_get c ''gross_charge'' JNull) (\<lambda>g.
       if truthy g
       then bind_e (py_get c ''gross_charge'' (JFloat PInf)) (\<lambda>g'.
            bind_e (py_float g') (\<lambda>v.
            bind_e (gross_values cs) (\<lambda>vs. Inr (v # vs))))
       else gross_values cs)"

text \<open>
  \<^verbatim>\<open>min(values, default=d)\<close>: the first value, replaced by each later value that is
  less than the current one.
\<close>

fun py_min :: "pyfloat list \<Rightarrow> pyfloat \<Rightarrow> pyfloat" where
  "py_min [] d = d"
| "py_min (v # vs) d = foldl (\<lambda>m x. if fl_lt x m then x else m) v vs"

text \<open>
  The whole expression \<^verbatim>\<open>min((... for c in charges if ...), default=float('inf'))\<close> on the
  stored \<^verbatim>\<open>charges\<close>.
\<close>

definition min_gross :: "json \<Rightarrow> py_error + pyfloat" where
  "min_gross charges =
     bind_e (py_iter charges) (\<lambda>cs.
     bind_e (gross_values cs) (\<lambda>vs. Inr (py_min vs PInf)))"

record candidate =
  c_code :: json
  c_description :: json
  min_price :: pyfloat
  match_score :: nat
  c_revenue_code :: json

text \<open>
  The body of the loop over \<^verbatim>\<open>HCPCS_DATABASE.items()\<close>: the candidate that is appended,
  if any. The entry always has the key \<^verbatim>\<open>description\<close>, so the default \<^verbatim>\<open>''\<close> of
  \<^verbatim>\<open>entry.get('description', '')\<close> is never used.
\<close>

definition candidate_of ::
    "string list \<Rightarrow> pyfloat \<Rightarrow> json \<Rightarrow> db_entry \<Rightarrow> py_error + candidate option" where
  "candidate_of kws max_price code entry =
     bind_e (py_lower (e_description entry)) (\<lambda>entry_desc.
       let matches = count_matches kws entry_desc in
       if matches < 2 then Inr None
       else
         (let charges = e_standard_charges entry in
          if \<not> truthy charges then Inr None
          else bind_e (min_gross charges) (\<lambda>m.
                 if fl_lt m max_price
                 then Inr (Some \<lparr>c_code = code, c_description = e_description entry,
                                 min_price = m, match_score = matches,
                                 c_revenue_code = e_revenue_code entry\<rparr>)
                 else Inr None)))"

text \<open>The loop: the list \<^verbatim>\<open>similar_codes\<close>, in the order of the dict.\<close>

fun similar_codes :: "string list \<Rightarrow> pyfloat \<Rightarrow> index \<Rightarrow> py_error + candidate list" where
  "similar_codes kws max_price [] = Inr []"
| "similar_codes kws max_price ((code, entry) # rest) =
     bind_e (candidate_of kws max_price code entry) (\<lambda>c.
     bind_e (similar_codes kws max_price rest) (\<lambda>cs.
       Inr (case c of None \<Rightarrow> cs | Some x \<Rightarrow> x # cs)))"

text \<open>
  The sort key \<^verbatim>\<open>(-x['match_score'], x['min_price'])\<close> and Python's \<^verbatim>\<open><\<close> on two such
  tuples: the first components decide unless they are equal.
\<close>

definition key_lt :: "candidate \<Rightarrow> candidate \<Rightarrow> bool" where
  "key_lt a b =
     (if - int (match_score a) \<noteq> - int (match_score b)
      then - int (match_score a) < - int (match_score b)
      else fl_lt (min_price a) (min_price b))"

text \<open>
  \<^verbatim>\<open>list.sort\<close> is stable and compares keys with \<^verbatim>\<open><\<close> only. It is modelled by the
  stable insertion sort; on keys without NaN, which \<^verbatim>\<open><\<close> orders totally, every stable
  sort returns the same list.
\<close>

fun insort_cand :: "candidate \<Rightarrow> candidate list \<Rightarrow> candidate list" where
  "insort_cand x [] = [x]"
| "insort_cand x (y # ys) = (if key_lt y x then y # insort_cand x ys else x # y # ys)"

definition sort_cands :: "candidate list \<Rightarrow> candidate list" where
  "sort_cands xs = foldr insort_cand xs []"

text \<open>
  \<^verbatim>\<open>
  def find_similar_cheaper_codes(description, max_price, limit=5):
      if not description:
          return []
      keywords = [...]
      if not keywords:
          return []
      similar_codes = []
      for code, entry in HCPCS_DATABASE.items():
          ...
      similar_codes.sort(key=lambda x: (-x['match_score'], x['min_price']))
      return similar_codes[:limit]
  \<close>
\<close>

definition find_similar_cheaper_codes ::
    "index \<Rightarrow> string \<Rightarrow> pyfloat \<Rightarrow> int \<Rightarrow> py_error + candidate list" where
  "find_similar_cheaper_codes db description max_price limit =
     (if description = [] then Inr []
      else if keywords_of description = [] then Inr []
      else bind_e (similar_codes (keywords_of description) max_price db) (\<lambda>found_codes.
             Inr (py_slice_to limit (sort_cands found_codes))))"

text \<open>
  The order of the specification on two candidates: match count descending, then minimum
  price ascending among equal match counts. To be compared with the sort of the code.
\<close>

definition ranked_before :: "candidate \<Rightarrow> candidate \<Rightarrow> bool" where
  "ranked_before a b =
     (match_score b < match_score a \<or>
      (match_score a = match_score b \<and> fl_le (min_price a) (min_price b)))"






definition least_of :: "pyfloat \<Rightarrow> pyfloat list \<Rightarrow> bool" where
  "least_of m fs = (if fs = [] then m = PInf else m \<in> set fs \<and> list_all (fl_le m) fs)"

section \<open>DuplicateDetector: \<^verbatim>\<open>detect_duplicates\<close>\<close>

text \<open>The line item that the extraction returns (the pydantic model \<^verbatim>\<open>HCPCSCode\<close>).\<close>

record HCPCSCode =
  hc_code :: string
  hc_description :: "string option"
  hc_charge :: "string option"
  hc_units :: "string option"
  hc_revenue_code :: "string option"

text \<open>
  \<^verbatim>\<open>Counter(iterable)\<close>: a dict in the order of first occurrence, from each item to the
  number of its occurrences.
\<close>

fun count_one :: "string \<Rightarrow> (string \<times> nat) list \<Rightarrow> (string \<times> nat) list" where
  "count_one c [] = [(c, 1)]"
| "count_one c ((k, n) # kns) = (if k = c then (k, n + 1) # kns else (k, n) # count_one c kns)"

definition Counter :: "string list \<Rightarrow> (string \<times> nat) list" where
  "Counter cs = foldl (\<lambda>counts c. count_one c counts) [] cs"

text \<open>
  \<^verbatim>\<open>
  def detect_duplicates(codes):
      code_counts = Counter(hcpcs.code for hcpcs in codes)
      return {code: count for code, count in code_counts.items() if count > 1}
  \<close>
\<close>

definition detect_duplicates :: "HCPCSCode list \<Rightarrow> (string \<times> nat) list" where
  "detect_duplicates codes = filter (\<lambda>(code, count). count > 1) (Counter (map hc_code codes))"

section \<open>The merge step of \<^verbatim>\<open>analyze_bill\<close>\<close>

record CodeValidation =
  cv_code :: string
  cv_status :: string
  cv_reasoning :: string

record CodeAnalysis =
  ca_code :: string
  ca_description :: "string option"
  ca_revenue_code :: "string option"
  ca_status :: string
  ca_reasoning :: string
  ca_billed_charge :: pyfloat

text \<open>\<^verbatim>\<open>validation_map = {v.code: v for v in validation.validations}\<close>: a later item replaces an earlier one.\<close>

definition validation_map :: "CodeValidation list \<Rightarrow> (string \<rightharpoonup> CodeValidation)" where
  "validation_map validations = foldl (\<lambda>m v. m(cv_code v \<mapsto> v)) Map.empty validations"

text \<open>
  \<^verbatim>\<open>
  for hcpcs in codes:
      val = validation_map.get(hcpcs.code)
      if not val:
          val = CodeValidation(code=hcpcs.code, status="accepted",
                               reasoning="No validation issues found.")
      charge = parse_charge(hcpcs.charge)
      if val.status == "disputed":
          savings += charge
      codes_analysis.append(CodeAnalysis(code=hcpcs.code, description=hcpcs.description,
          revenue_code=hcpcs.revenue_code, status=val.status, reasoning=val.reasoning,
          billed_charge=charge))
  \<close>
  A pydantic object is always true, so \<^verbatim>\<open>not val\<close> holds exactly for \<^verbatim>\<open>None\<close>.
\<close>

definition validation_for :: "(string \<rightharpoonup> CodeValidation) \<Rightarrow> HCPCSCode \<Rightarrow> CodeValidation" where
  "validation_for vm hcpcs =
     (case vm (hc_code hcpcs) of
        None \<Rightarrow> \<lparr>cv_code = hc_code hcpcs, cv_status = ''accepted'',
                  cv_reasoning = ''No validation issues found.''\<rparr>
      | Some v \<Rightarrow> v)"

fun merge_loop ::
    "(string \<rightharpoonup> CodeValidation) \<Rightarrow> HCPCSCode list \<Rightarrow> CodeAnalysis list \<times> pyfloat \<Rightarrow>
     py_error + CodeAnalysis list \<times> pyfloat" where
  "merge_loop vm [] acc = Inr acc"
| "merge_loop vm (hcpcs # rest) (codes_analysis, savings) =
     (let val = validation_for vm hcpcs
      in bind_e (parse_charge (hc_charge hcpcs)) (\<lambda>charge.
           merge_loop vm rest
             (codes_analysis @
                [\<lparr>ca_code = hc_code hcpcs, ca_description = hc_description hcpcs,
                  ca_revenue_code = hc_revenue_code hcpcs, ca_status = cv_status val,
                  ca_reasoning = cv_reasoning val, ca_billed_charge = charge\<rparr>],
              if cv_status val = ''disputed'' then fl_add savings charge else savings)))"

text \<open>Step 4 of \<^verbatim>\<open>analyze_bill\<close>: \<^verbatim>\<open>codes_analysis\<close> and \<^verbatim>\<open>savings\<close> start empty and at \<^verbatim>\<open>0.0\<close>.\<close>

definition merge_step ::
    "HCPCSCode list \<Rightarrow> CodeValidation list \<Rightarrow> py_error + CodeAnalysis list \<times> pyfloat" where
  "merge_step codes validations = merge_loop (validation_map validations) codes ([], Fin 0)"


text \<open>A line item of which the extraction returned the code only.\<close>

definition bare_item :: "string \<Rightarrow> HCPCSCode" where
  "bare_item c = \<lparr>hc_code = c, hc_description = None, hc_charge = None, hc_units = None,
                   hc_revenue_code = None\<rparr>"

section \<open>Example data\<close>

text \<open>An index entry with three price variants, the last without a gross charge.\<close>

definition knee_variants :: "json list" where
  "knee_variants =
     [JDict [(''gross_charge'', JInt 120), (''setting'', JStr ''outpatient''),
             (''billing_class'', JStr ''facility'')],
      JDict [(''gross_charge'', JInt 95), (''setting'', JStr ''both''),
             (''billing_class'', JStr ''professional'')],
      JDict [(''setting'', JStr ''inpatient''), (''billing_class'', JStr ''facility'')]]"

definition knee_entry :: db_entry where
  "knee_entry = \<lparr>e_description = JStr ''Knee brace adjustable'', e_code = JStr ''L1810'',
                  e_standard_charges = JList knee_variants, e_revenue_code = JStr ''0274''\<rparr>"

text \<open>
  An index entry with one price variant, an index of six braces that all cost less than
  100, an entry with the gross charges 0 and 50, and an index of three braces.
\<close>

definition brace_entry :: "string \<Rightarrow> string \<Rightarrow> int \<Rightarrow> json \<times> db_entry" where
  "brace_entry code descr price =
     (JStr code,
      \<lparr>e_description = JStr descr, e_code = JStr code,
       e_standard_charges = JList [JDict [(''gross_charge'', JInt price)]],
       e_revenue_code = JNull\<rparr>)"

definition brace_candidate :: "string \<Rightarrow> string \<Rightarrow> int \<Rightarrow> nat \<Rightarrow> candidate" where
  "brace_candidate code descr price score =
     \<lparr>c_code = JStr code, c_description = JStr descr, min_price = Fin (of_int price),
      match_score = score, c_revenue_code = JNull\<rparr>"



definition three_braces :: index where
  "three_braces =
     [brace_entry ''K1'' ''Knee brace'' 30, brace_entry ''K2'' ''Knee brace'' 20,
      brace_entry ''K3'' ''Knee brace hinged'' 50]"

text \<open>
  A dataset record that carries an HCPCS code and has no description, and the entry that
  it is indexed as.
\<close>

definition record_without_description :: json where
  "record_without_description =
     JDict [(''code_information'', JList [JDict [(''type'', JStr ''HCPCS''), (''code'', JStr ''X0001'')]]),
            (''standard_charges'', JList [JDict [(''gross_charge'', JInt 10)]])]"

definition entry_without_description :: db_entry where
  "entry_without_description =
     \<lparr>e_description = JNull, e_code = JStr ''X0001'',
      e_standard_charges = JList [JDict [(''gross_charge'', JInt 10)]],
      e_revenue_code = JNull\<rparr>"

text \<open>
  A dataset record with the HCPCS code \<^verbatim>\<open>L1810\<close> and a revenue code, which is indexed as
  \<open>knee_entry\<close>, and a later record that carries the same HCPCS code.
\<close>

definition knee_record :: json where
  "knee_record =
     JDict [(''description'', JStr ''Knee brace adjustable''),
            (''code_information'',
               JList [JDict [(''type'', JStr ''HCPCS''), (''code'', JStr ''L1810'')],
                      JDict [(''type'', JStr ''RC''), (''code'', JStr ''0274'')]]),
            (''standard_charges'', JList knee_variants)]"

definition later_record :: json where
  "later_record =
     JDict [(''description'', JStr ''Another description''),
            (''code_information'',
               JList [JDict [(''type'', JStr ''HCPCS''), (''code'', JStr ''L1810'')]]),
            (''standard_charges'', JList [])]"

section \<open>Properties of the parser\<close>

lemma py_float_str_error: "py_float_str s = Inl e \<Longrightarrow> e = ValueError"
  by (auto simp: py_float_str_def Let_def split: if_splits prod.splits option.splits)

lemma parse_charge_returns: "\<exists>v. parse_charge x = Inr v"
proof (cases x)
  case None
  then show ?thesis by (simp add: parse_charge_def)
next
  case (Some s)
  show ?thesis
  proof (cases "py_float_str (cleaned s)")
    case (Inl e)
    then have "e = ValueError" by (rule py_float_str_error)
    with Inl Some show ?thesis by (simp add: parse_charge_def)
  next
    case (Inr v)
    with Some show ?thesis by (simp add: parse_charge_def)
  qed
qed
















section \<open>Properties of the duplicate detector\<close>

lemma map_of_count_one:
  "map_of (count_one c kns) = (map_of kns)(c \<mapsto> (case map_of kns c of None \<Rightarrow> 1 | Some n \<Rightarrow> n + 1))"
  by (induction kns) (auto simp: fun_eq_iff)

lemma keys_count_one:
  "map fst (count_one c kns) = (if c \<in> set (map fst kns) then map fst kns else map fst kns @ [c])"
  by (induction kns) (force split: if_splits)+

lemma distinct_count_one: "distinct (map fst kns) \<Longrightarrow> distinct (map fst (count_one c kns))"
  by (simp add: keys_count_one)

lemma map_of_counting:
  "map_of (foldl (\<lambda>counts c. count_one c counts) acc cs) k =
     (case map_of acc k of
        None \<Rightarrow> if count_list cs k = 0 then None else Some (count_list cs k)
      | Some n \<Rightarrow> Some (n + count_list cs k))"
proof (induction cs arbitrary: acc)
  case Nil
  then show ?case by (simp split: option.splits)
next
  case (Cons c cs)
  show ?case
    by (simp add: Cons.IH map_of_count_one split: option.splits)
qed

lemma distinct_counting:
  "distinct (map fst acc) \<Longrightarrow> distinct (map fst (foldl (\<lambda>counts c. count_one c counts) acc cs))"
  by (induction cs arbitrary: acc) (simp_all add: distinct_count_one)

lemma map_of_Counter:
  "map_of (Counter cs) k = (if count_list cs k = 0 then None else Some (count_list cs k))"
  by (simp add: Counter_def map_of_counting)

lemma distinct_Counter: "distinct (map fst (Counter cs))"
  by (simp add: Counter_def distinct_counting)

lemma map_of_filter_values:
  "distinct (map fst kvs) \<Longrightarrow>
   map_of (filter (\<lambda>(k, v). P v) kvs) k =
     (case map_of kvs k of None \<Rightarrow> None | Some v \<Rightarrow> if P v then Some v else None)"
proof (induction kvs)
  case Nil
  then show ?case by simp
next
  case (Cons kv kvs)
  obtain a b where kv: "kv = (a, b)" by (cases kv)
  from Cons.prems kv have notin: "a \<notin> fst ` set kvs" and d: "distinct (map fst kvs)" by auto
  from notin have none: "map_of kvs a = None" by (simp add: map_of_eq_None_iff)
  show ?case using Cons.IH [OF d] none kv by (auto split: option.splits)
qed

lemma map_of_detect_duplicates:
  "map_of (detect_duplicates codes) c =
     (if 1 < count_list (map hc_code codes) c then Some (count_list (map hc_code codes) c) else None)"
  by (simp add: detect_duplicates_def map_of_filter_values [OF distinct_Counter] map_of_Counter)

lemma distinct_detect_duplicates: "distinct (map fst (detect_duplicates codes))"
  unfolding detect_duplicates_def by (rule distinct_map_filter) (rule distinct_Counter)

lemma count_codes_mset:
  assumes "mset codes' = mset codes"
  shows "count_list (map hc_code codes') c = count_list (map hc_code codes) c"
proof -
  from assms have "mset (map hc_code codes') = mset (map hc_code codes)" by simp
  then show ?thesis by (metis count_mset)
qed

lemma detect_duplicates_example:
  assumes "map hc_code codes = [''A'', ''A'', ''B'', ''C'', ''C'', ''C'']"
  shows "detect_duplicates codes = [(''A'', 2), (''C'', 3)]"
  by (simp add: detect_duplicates_def assms Counter_def)

text \<open>
  Claim C9. As a mapping, the result of \<^verbatim>\<open>detect_duplicates\<close> holds exactly the codes
  that occur more than once among the line items, each with the number of its
  occurrences; no code is listed twice; and the mapping is the same for every
  permutation of the line items. On the codes A, A, B, C, C, C it is A: 2, C: 3.
\<close>

theorem detect_duplicates_contract:
  "map_of (detect_duplicates codes) c =
     (if 1 < count_list (map hc_code codes) c then Some (count_list (map hc_code codes) c)
      else None) \<and>
   distinct (map fst (detect_duplicates codes)) \<and>
   (mset codes' = mset codes \<longrightarrow>
      map_of (detect_duplicates codes') = map_of (detect_duplicates codes)) \<and>
   (map hc_code codes = [''A'', ''A'', ''B'', ''C'', ''C'', ''C''] \<longrightarrow>
      detect_duplicates codes = [(''A'', 2), (''C'', 3)])"
proof (intro conjI impI)
  show "map_of (detect_duplicates codes) c =
     (if 1 < count_list (map hc_code codes) c then Some (count_list (map hc_code codes) c)
      else None)"
    by (rule map_of_detect_duplicates)
  show "distinct (map fst (detect_duplicates codes))" by (rule distinct_detect_duplicates)
  show "map_of (detect_duplicates codes') = map_of (detect_duplicates codes)"
    if "mset codes' = mset codes"
    using count_codes_mset [OF that] by (simp add: fun_eq_iff map_of_detect_duplicates)
  show "detect_duplicates codes = [(''A'', 2), (''C'', 3)]"
    if "map hc_code codes = [''A'', ''A'', ''B'', ''C'', ''C'', ''C'']"
    using that by (rule detect_duplicates_example)
qed

theorem detect_duplicates_contract_witness:
  "mset (map bare_item [''B'', ''A'', ''A'']) = mset (map bare_item [''A'', ''B'', ''A'']) \<and>
   map_of (detect_duplicates (map bare_item [''B'', ''A'', ''A''])) =
     map_of (detect_duplicates (map bare_item [''A'', ''B'', ''A''])) \<and>
   map hc_code (map bare_item [''A'', ''A'', ''B'', ''C'', ''C'', ''C'']) =
     [''A'', ''A'', ''B'', ''C'', ''C'', ''C''] \<and>
   detect_duplicates (map bare_item [''A'', ''A'', ''B'', ''C'', ''C'', ''C'']) =
     [(''A'', 2), (''C'', 3)]"
proof -
  have h1: "mset (map bare_item [''B'', ''A'', ''A'']) = mset (map bare_item [''A'', ''B'', ''A''])"
    by simp
  have h2: "map hc_code (map bare_item [''A'', ''A'', ''B'', ''C'', ''C'', ''C'']) =
     [''A'', ''A'', ''B'', ''C'', ''C'', ''C'']"
    by (simp add: bare_item_def)
  have r1: "map_of (detect_duplicates (map bare_item [''B'', ''A'', ''A''])) =
     map_of (detect_duplicates (map bare_item [''A'', ''B'', ''A'']))"
    by (rule detect_duplicates_contract
        [of "map bare_item [''A'', ''B'', ''A'']" "''A''" "map bare_item [''B'', ''A'', ''A'']",
         THEN conjunct2, THEN conjunct2, THEN conjunct1, THEN mp, OF h1])
  have r2: "detect_duplicates (map bare_item [''A'', ''A'', ''B'', ''C'', ''C'', ''C'']) =
     [(''A'', 2), (''C'', 3)]"
    by (rule detect_duplicates_contract
        [of "map bare_item [''A'', ''A'', ''B'', ''C'', ''C'', ''C'']" "''A''" "[]",
         THEN conjunct2, THEN conjunct2, THEN conjunct2, THEN mp, OF h2])
  show ?thesis
    by (intro conjI) (rule h1 h2 r1 r2)+
qed

section \<open>Properties of the merge step\<close>

lemma validation_fold_None:
  "foldl (\<lambda>m v. m(cv_code v \<mapsto> v)) m vs c = None \<longleftrightarrow> m c = None \<and> c \<notin> cv_code ` set vs"
  by (induction vs arbitrary: m) auto

lemma validation_fold_Some:
  "foldl (\<lambda>m v. m(cv_code v \<mapsto> v)) m vs c = Some v \<Longrightarrow>
   m c = Some v \<or> (v \<in> set vs \<and> cv_code v = c)"
proof (induction vs arbitrary: m)
  case Nil
  then show ?case by simp
next
  case (Cons a vs)
  from Cons.prems have "foldl (\<lambda>m v. m(cv_code v \<mapsto> v)) (m(cv_code a \<mapsto> a)) vs c = Some v"
    by (simp only: foldl_Cons)
  from Cons.IH [OF this]
  have "(m(cv_code a \<mapsto> a)) c = Some v \<or> (v \<in> set vs \<and> cv_code v = c)" .
  then show ?case by (cases "cv_code a = c") auto
qed

lemma validation_map_None:
  "validation_map validations c = None \<longleftrightarrow> c \<notin> cv_code ` set validations"
  by (simp add: validation_map_def validation_fold_None)

lemma validation_map_Some:
  "validation_map validations c = Some v \<Longrightarrow> v \<in> set validations \<and> cv_code v = c"
  using validation_fold_Some [of Map.empty validations c v] by (simp add: validation_map_def)

lemma merge_loop_result:
  "\<exists>res sv'. merge_loop vm hs (ca, sv) = Inr (ca @ res, sv') \<and>
     map ca_code res = map hc_code hs \<and>
     map ca_description res = map hc_description hs \<and>
     map ca_revenue_code res = map hc_revenue_code hs \<and>
     map (\<lambda>a. Inr (ca_billed_charge a)) res = map (\<lambda>h. parse_charge (hc_charge h)) hs \<and>
     map ca_status res = map (\<lambda>h. cv_status (validation_for vm h)) hs \<and>
     map ca_reasoning res = map (\<lambda>h. cv_reasoning (validation_for vm h)) hs \<and>
     sv' = foldl fl_add sv (map ca_billed_charge (filter (\<lambda>a. ca_status a = ''disputed'') res))"
proof (induction hs arbitrary: ca sv)
  case Nil
  show ?case by simp
next
  case (Cons h hs)
  obtain charge where charge: "parse_charge (hc_charge h) = Inr charge"
    using parse_charge_returns by blast
  define a where "a = \<lparr>ca_code = hc_code h, ca_description = hc_description h,
      ca_revenue_code = hc_revenue_code h, ca_status = cv_status (validation_for vm h),
      ca_reasoning = cv_reasoning (validation_for vm h), ca_billed_charge = charge\<rparr>"
  define sv1 where
    "sv1 = (if cv_status (validation_for vm h) = ''disputed'' then fl_add sv charge else sv)"
  have step: "merge_loop vm (h # hs) (ca, sv) = merge_loop vm hs (ca @ [a], sv1)"
    by (simp add: charge bind_e_def a_def sv1_def Let_def)
  from Cons.IH [of "ca @ [a]" sv1] obtain res sv' where
    r: "merge_loop vm hs (ca @ [a], sv1) = Inr ((ca @ [a]) @ res, sv')"
    and m1: "map ca_code res = map hc_code hs"
    and m2: "map ca_description res = map hc_description hs"
    and m3: "map ca_revenue_code res = map hc_revenue_code hs"
    and m4: "map (\<lambda>a. Inr (ca_billed_charge a)) res = map (\<lambda>h. parse_charge (hc_charge h)) hs"
    and m5: "map ca_status res = map (\<lambda>h. cv_status (validation_for vm h)) hs"
    and m6: "map ca_reasoning res = map (\<lambda>h. cv_reasoning (validation_for vm h)) hs"
    and m7: "sv' = foldl fl_add sv1
        (map ca_billed_charge (filter (\<lambda>a. ca_status a = ''disputed'') res))"
    by blast
  have s: "sv' = foldl fl_add sv
      (map ca_billed_charge (filter (\<lambda>a. ca_status a = ''disputed'') (a # res)))"
    using m7 by (simp add: sv1_def a_def)
  have "merge_loop vm (h # hs) (ca, sv) = Inr (ca @ (a # res), sv')"
    using step r by simp
  moreover have "map ca_code (a # res) = map hc_code (h # hs)" using m1 by (simp add: a_def)
  moreover have "map ca_description (a # res) = map hc_description (h # hs)"
    using m2 by (simp add: a_def)
  moreover have "map ca_revenue_code (a # res) = map hc_revenue_code (h # hs)"
    using m3 by (simp add: a_def)
  moreover have "map (\<lambda>a. Inr (ca_billed_charge a)) (a # res) =
      map (\<lambda>h. parse_charge (hc_charge h)) (h # hs)"
    using m4 charge by (simp add: a_def)
  moreover have "map ca_status (a # res) = map (\<lambda>h. cv_status (validation_for vm h)) (h # hs)"
    using m5 by (simp add: a_def)
  moreover have "map ca_reasoning (a # res) =
      map (\<lambda>h. cv_reasoning (validation_for vm h)) (h # hs)"
    using m6 by (simp add: a_def)
  ultimately show ?case using s by blast
qed


lemma validation_for_absent:
  assumes "hc_code h \<notin> cv_code ` set validations"
  shows "cv_status (validation_for (validation_map validations) h) = ''accepted''"
    and "cv_reasoning (validation_for (validation_map validations) h) =
           ''No validation issues found.''"
proof -
  from assms have "validation_map validations (hc_code h) = None"
    by (simp add: validation_map_None)
  then show "cv_status (validation_for (validation_map validations) h) = ''accepted''"
    and "cv_reasoning (validation_for (validation_map validations) h) =
           ''No validation issues found.''"
    by (simp_all add: validation_for_def)
qed

lemma validation_for_present:
  assumes "hc_code h \<in> cv_code ` set validations"
  shows "\<exists>v \<in> set validations. cv_code v = hc_code h \<and>
           validation_for (validation_map validations) h = v"
proof -
  from assms have "validation_map validations (hc_code h) \<noteq> None"
    by (simp add: validation_map_None)
  then obtain v where v: "validation_map validations (hc_code h) = Some v" by blast
  from validation_map_Some [OF v] v show ?thesis by (auto simp: validation_for_def)
qed

text \<open>
  Claim C3. The merge step returns, without raising, one analysis per line item, in the
  order of the line items and without removing repeated codes: the analysis at each
  position has the code, description and revenue code of the line item at that position
  and its parsed charge. An item whose code has no validation gets the status
  \<^verbatim>\<open>accepted\<close> and the reasoning \<^verbatim>\<open>No validation issues found.\<close>; an item whose code
  has one gets the status and reasoning of a validation with that code. The savings are
  the sum, from 0 and in order, of the billed charges of exactly the analyses whose
  status is \<^verbatim>\<open>disputed\<close>.
\<close>

theorem merge_step_contract:
  "\<exists>res savings. merge_step codes validations = Inr (res, savings) \<and>
     length res = length codes \<and>
     map ca_code res = map hc_code codes \<and>
     map ca_description res = map hc_description codes \<and>
     map ca_revenue_code res = map hc_revenue_code codes \<and>
     map (\<lambda>a. Inr (ca_billed_charge a)) res = map (\<lambda>h. parse_charge (hc_charge h)) codes \<and>
     (\<forall>i < length codes. hc_code (codes ! i) \<notin> cv_code ` set validations \<longrightarrow>
        ca_status (res ! i) = ''accepted'' \<and>
        ca_reasoning (res ! i) = ''No validation issues found.'') \<and>
     (\<forall>i < length codes. hc_code (codes ! i) \<in> cv_code ` set validations \<longrightarrow>
        (\<exists>v \<in> set validations. cv_code v = hc_code (codes ! i) \<and>
           ca_status (res ! i) = cv_status v \<and> ca_reasoning (res ! i) = cv_reasoning v)) \<and>
     savings = foldl fl_add (Fin 0)
       (map ca_billed_charge (filter (\<lambda>a. ca_status a = ''disputed'') res))"
proof -
  let ?vm = "validation_map validations"
  from merge_loop_result [of ?vm codes "[]" "Fin 0"] obtain res savings where
    r: "merge_step codes validations = Inr (res, savings)"
    and m1: "map ca_code res = map hc_code codes"
    and m2: "map ca_description res = map hc_description codes"
    and m3: "map ca_revenue_code res = map hc_revenue_code codes"
    and m4: "map (\<lambda>a. Inr (ca_billed_charge a)) res = map (\<lambda>h. parse_charge (hc_charge h)) codes"
    and m5: "map ca_status res = map (\<lambda>h. cv_status (validation_for ?vm h)) codes"
    and m6: "map ca_reasoning res = map (\<lambda>h. cv_reasoning (validation_for ?vm h)) codes"
    and m7: "savings = foldl fl_add (Fin 0)
       (map ca_billed_charge (filter (\<lambda>a. ca_status a = ''disputed'') res))"
    unfolding merge_step_def by auto
  from m1 have len: "length res = length codes" by (rule map_eq_imp_length_eq)
  have st: "ca_status (res ! i) = cv_status (validation_for ?vm (codes ! i))"
    if "i < length codes" for i
  proof -
    have "map ca_status res ! i = map (\<lambda>h. cv_status (validation_for ?vm h)) codes ! i"
      by (simp only: m5)
    with that len show ?thesis by simp
  qed
  have re: "ca_reasoning (res ! i) = cv_reasoning (validation_for ?vm (codes ! i))"
    if "i < length codes" for i
  proof -
    have "map ca_reasoning res ! i = map (\<lambda>h. cv_reasoning (validation_for ?vm h)) codes ! i"
      by (simp only: m6)
    with that len show ?thesis by simp
  qed
  have absent: "\<forall>i < length codes. hc_code (codes ! i) \<notin> cv_code ` set validations \<longrightarrow>
        ca_status (res ! i) = ''accepted'' \<and>
        ca_reasoning (res ! i) = ''No validation issues found.''"
    using st re validation_for_absent by simp
  have present: "\<forall>i < length codes. hc_code (codes ! i) \<in> cv_code ` set validations \<longrightarrow>
        (\<exists>v \<in> set validations. cv_code v = hc_code (codes ! i) \<and>
           ca_status (res ! i) = cv_status v \<and> ca_reasoning (res ! i) = cv_reasoning v)"
  proof (intro allI impI)
    fix i assume i: "i < length codes"
      and c: "hc_code (codes ! i) \<in> cv_code ` set validations"
    from validation_for_present [OF c] obtain v where
      "v \<in> set validations" "cv_code v = hc_code (codes ! i)"
      "validation_for ?vm (codes ! i) = v" by blast
    with st [OF i] re [OF i]
    show "\<exists>v \<in> set validations. cv_code v = hc_code (codes ! i) \<and>
           ca_status (res ! i) = cv_status v \<and> ca_reasoning (res ! i) = cv_reasoning v"
      by blast
  qed
  from r len m1 m2 m3 m4 absent present m7 show ?thesis by blast
qed


theorem merge_step_contract_witness:
  "\<exists>res savings.
     merge_step [bare_item ''A'', bare_item ''B'']
       [\<lparr>cv_code = ''A'', cv_status = ''disputed'', cv_reasoning = ''duplicate''\<rparr>] =
       Inr (res, savings) \<and>
     (1::nat) < length [bare_item ''A'', bare_item ''B''] \<and>
     hc_code ([bare_item ''A'', bare_item ''B''] ! 1) \<notin>
       cv_code ` set [\<lparr>cv_code = ''A'', cv_status = ''disputed'', cv_reasoning = ''duplicate''\<rparr>] \<and>
     ca_status (res ! 1) = ''accepted'' \<and>
     (0::nat) < length [bare_item ''A'', bare_item ''B''] \<and>
     hc_code ([bare_item ''A'', bare_item ''B''] ! 0) \<in>
       cv_code ` set [\<lparr>cv_code = ''A'', cv_status = ''disputed'', cv_reasoning = ''duplicate''\<rparr>] \<and>
     ca_status (res ! 0) = ''disputed''"
proof -
  let ?C = "[bare_item ''A'', bare_item ''B'']"
  let ?V = "[\<lparr>cv_code = ''A'', cv_status = ''disputed'', cv_reasoning = ''duplicate''\<rparr>]"
  have h1: "(1::nat) < length ?C" by simp
  have h2: "hc_code (?C ! 1) \<notin> cv_code ` set ?V" by (simp add: bare_item_def)
  have h3: "(0::nat) < length ?C" by simp
  have h4: "hc_code (?C ! 0) \<in> cv_code ` set ?V" by (simp add: bare_item_def)
  from merge_step_contract [of ?C ?V] obtain res savings where
    r: "merge_step ?C ?V = Inr (res, savings)"
    and absent: "\<forall>i < length ?C. hc_code (?C ! i) \<notin> cv_code ` set ?V \<longrightarrow>
        ca_status (res ! i) = ''accepted'' \<and>
        ca_reasoning (res ! i) = ''No validation issues found.''"
    and present: "\<forall>i < length ?C. hc_code (?C ! i) \<in> cv_code ` set ?V \<longrightarrow>
        (\<exists>v \<in> set ?V. cv_code v = hc_code (?C ! i) \<and>
           ca_status (res ! i) = cv_status v \<and> ca_reasoning (res ! i) = cv_reasoning v)"
    by blast
  from absent h1 h2 have a: "ca_status (res ! 1) = ''accepted''" by blast
  from present h3 h4 have "\<exists>v \<in> set ?V. cv_code v = hc_code (?C ! 0) \<and>
           ca_status (res ! 0) = cv_status v \<and> ca_reasoning (res ! 0) = cv_reasoning v"
    by blast
  then have d: "ca_status (res ! 0) = ''disputed''" by simp
  from r h1 h2 a h3 h4 d show ?thesis by blast
qed

section \<open>Properties of the lookup\<close>

lemma key_of_str: "key_of k = Inr (KStr c) \<longleftrightarrow> k = JStr c"
  by (cases k) auto

lemma db_find_str:
  "db_find db (JStr c) = Inr (map_option snd (find (\<lambda>ke. fst ke = JStr c) db))"
  by (simp add: db_find_def bind_e_def key_of_str)

lemma find_key_None: "find (\<lambda>ke. fst ke = k) db = None \<longleftrightarrow> k \<notin> fst ` set db"
  by (induction db) auto

lemma find_key_Some: "find (\<lambda>ke. fst ke = k) db = Some ke \<Longrightarrow> ke \<in> set db \<and> fst ke = k"
  by (induction db) (auto split: if_splits)

lemma db_find_str_None: "db_find db (JStr c) = Inr None \<longleftrightarrow> JStr c \<notin> fst ` set db"
  by (simp add: db_find_str find_key_None)

lemma db_find_str_Some:
  assumes "db_find db (JStr c) = Inr (Some entry)"
  shows "(JStr c, entry) \<in> set db"
proof -
  from assms obtain ke where f: "find (\<lambda>ke. fst ke = JStr c) db = Some ke" and e: "snd ke = entry"
    by (auto simp: db_find_str)
  from find_key_Some [OF f] e show ?thesis by (cases ke) auto
qed

lemma lookup_miss:
  assumes "JStr code \<notin> fst ` set db"
  shows "lookup_hcpcs_code db code setting billing_class =
           Inr (Lookup_miss code ''Code not found in UCSF standard charges database'')"
proof -
  from assms have "db_find db (JStr code) = Inr None" by (simp add: db_find_str_None)
  then show ?thesis by (simp add: lookup_hcpcs_code_def bind_e_def)
qed

lemma contains_not_found:
  "contains ''not found'' ''Code not found in UCSF standard charges database''"
  by simp

text \<open>
  Claim C7. For every code that is not a key of the index, whatever the two filters,
  \<^verbatim>\<open>lookup_hcpcs_code\<close> raises nothing and returns the dict with \<^verbatim>\<open>found\<close> false, the
  queried code and the message \<^verbatim>\<open>Code not found in UCSF standard charges database\<close>,
  which contains the words \<^verbatim>\<open>not found\<close>.
\<close>

theorem lookup_absent_code:
  "JStr code \<notin> fst ` set db \<Longrightarrow>
   \<exists>r. lookup_hcpcs_code db code setting billing_class = Inr r \<and>
       \<not> found r \<and> lr_code r = code \<and>
       lr_message r = ''Code not found in UCSF standard charges database'' \<and>
       contains ''not found'' (lr_message r)"
  using contains_not_found by (simp add: lookup_miss)

theorem lookup_absent_code_witness:
  "JStr ''99213'' \<notin> fst ` set ([] :: index) \<and>
   (\<exists>r. lookup_hcpcs_code [] ''99213'' None None = Inr r \<and> \<not> found r \<and> lr_code r = ''99213'')"
proof -
  have h: "JStr ''99213'' \<notin> fst ` set ([] :: index)" by simp
  from lookup_absent_code [OF h, of None None] h show ?thesis by blast
qed

text \<open>
  The message of the not-found result is not the string \<^verbatim>\<open>not found\<close> itself: on the
  empty index the lookup of 99213 returns the longer sentence.
\<close>

theorem lookup_message_counterexample:
  "lookup_hcpcs_code [] ''99213'' None None =
     Inr (Lookup_miss ''99213'' ''Code not found in UCSF standard charges database'') \<and>
   ''Code not found in UCSF standard charges database'' \<noteq> ''not found''"
  by (simp add: lookup_miss)

lemma py_get_dict: "is_dict c \<Longrightarrow> py_get c k JNull = Inr (field c k)"
  by (cases c) simp_all









lemma lookup_null_description:
  assumes "db_find db (JStr code) = Inr (Some entry)" and "e_description entry = JNull"
  shows "lookup_hcpcs_code db code setting billing_class = Inl TypeError"
  using assms by (simp add: lookup_hcpcs_code_def bind_e_def)




section \<open>Properties of the alternative finder\<close>

lemma fl_lt_not_NaN: "fl_lt a b \<Longrightarrow> a \<noteq> NaN \<and> b \<noteq> NaN"
  by (cases a; cases b) simp_all

lemma fl_lt_asym: "fl_lt a b \<Longrightarrow> \<not> fl_lt b a"
  by (cases a; cases b) simp_all

lemma fl_le_trans: "fl_le a b \<Longrightarrow> fl_le b c \<Longrightarrow> fl_le a c"
  by (cases a; cases b; cases c) (simp_all add: fl_le_def)

lemma key_lt_ranked:
  assumes "min_price a \<noteq> NaN" and "min_price b \<noteq> NaN"
  shows "(\<not> key_lt b a) = ranked_before a b"
  using assms by (auto simp: key_lt_def ranked_before_def fl_le_def)

lemma key_lt_imp_ranked:
  assumes "min_price a \<noteq> NaN" and "min_price b \<noteq> NaN" and "key_lt a b"
  shows "ranked_before a b"
  using assms fl_lt_asym [of "min_price a" "min_price b"]
  by (auto simp: key_lt_def ranked_before_def fl_le_def split: if_splits)

lemma ranked_before_trans:
  "ranked_before a b \<Longrightarrow> ranked_before b c \<Longrightarrow> ranked_before a c"
  by (auto simp: ranked_before_def dest: fl_le_trans)

lemma set_insort_cand: "set (insort_cand x ys) = insert x (set ys)"
  by (induction ys) auto


lemma sorted_insort_cand:
  assumes "sorted_wrt ranked_before ys" and "min_price x \<noteq> NaN"
    and "\<forall>y \<in> set ys. min_price y \<noteq> NaN"
  shows "sorted_wrt ranked_before (insort_cand x ys)"
  using assms
proof (induction ys)
  case Nil
  then show ?case by simp
next
  case (Cons y ys)
  from Cons.prems have y: "min_price y \<noteq> NaN" and ys: "\<forall>z \<in> set ys. min_price z \<noteq> NaN"
    and sorted_ys: "sorted_wrt ranked_before ys" and y_first: "\<forall>z \<in> set ys. ranked_before y z"
    by simp_all
  show ?case
  proof (cases "key_lt y x")
    case True
    from y Cons.prems(2) True have "ranked_before y x" by (rule key_lt_imp_ranked)
    moreover have "sorted_wrt ranked_before (insort_cand x ys)"
      using sorted_ys Cons.prems(2) ys by (rule Cons.IH)
    ultimately show ?thesis using True y_first by (simp add: set_insort_cand)
  next
    case False
    with key_lt_ranked [OF Cons.prems(2) y] have xy: "ranked_before x y" by simp
    have "\<forall>z \<in> set ys. ranked_before x z"
      using xy y_first by (blast intro: ranked_before_trans)
    with False xy Cons.prems(1) show ?thesis by simp
  qed
qed

lemma set_sort_cands: "set (sort_cands xs) = set xs"
  by (induction xs) (simp_all add: sort_cands_def set_insort_cand)


lemma sorted_sort_cands:
  assumes "\<forall>x \<in> set xs. min_price x \<noteq> NaN"
  shows "sorted_wrt ranked_before (sort_cands xs)"
  using assms
proof (induction xs)
  case Nil
  then show ?case by (simp add: sort_cands_def)
next
  case (Cons x xs)
  then have "sorted_wrt ranked_before (sort_cands xs)" by simp
  moreover from Cons.prems have "min_price x \<noteq> NaN" by simp
  moreover from Cons.prems have "\<forall>y \<in> set (sort_cands xs). min_price y \<noteq> NaN"
    by (simp add: set_sort_cands)
  ultimately have "sorted_wrt ranked_before (insort_cand x (sort_cands xs))"
    by (rule sorted_insort_cand)
  then show ?case by (simp add: sort_cands_def)
qed

lemma py_slice_to_take: "\<exists>n. py_slice_to limit xs = take n xs"
  by (auto simp: py_slice_to_def)

lemma sorted_py_slice_to:
  assumes "sorted_wrt R xs"
  shows "sorted_wrt R (py_slice_to limit xs)"
proof -
  obtain n where n: "py_slice_to limit xs = take n xs" using py_slice_to_take by blast
  have "sorted_wrt R (take n xs @ drop n xs)" using assms by simp
  then have "sorted_wrt R (take n xs)" unfolding sorted_wrt_append by blast
  with n show ?thesis by simp
qed


lemma length_py_slice_to: "0 \<le> limit \<Longrightarrow> int (length (py_slice_to limit xs)) \<le> limit"
  by (simp add: py_slice_to_def)


lemma bind_e_Inr: "bind_e m f = Inr r \<longleftrightarrow> (\<exists>v. m = Inr v \<and> f v = Inr r)"
  by (cases m) (simp_all add: bind_e_def)

lemma bind_e_Inl: "bind_e m f = Inl e \<longleftrightarrow> m = Inl e \<or> (\<exists>v. m = Inr v \<and> f v = Inl e)"
  by (cases m) (simp_all add: bind_e_def)

lemma fl_lt_PInf: "\<not> fl_lt PInf x"
  by (cases x) simp_all

lemma min_gross_truthy:
  assumes "min_gross charges = Inr m" and "fl_lt m max_price"
  shows "truthy charges"
proof (rule ccontr)
  assume "\<not> truthy charges"
  then have "min_gross charges = Inr PInf \<or> (\<exists>e. min_gross charges = Inl e)"
    by (cases charges) (simp_all add: min_gross_def bind_e_def)
  with assms show False by (auto simp: fl_lt_PInf)
qed

lemma candidate_of_Some:
  assumes "e_description e = JStr d"
  shows "candidate_of kws max_price k e = Inr (Some c) \<longleftrightarrow>
    2 \<le> count_matches kws (lower d) \<and>
    (\<exists>m. min_gross (e_standard_charges e) = Inr m \<and> fl_lt m max_price \<and>
         c = \<lparr>c_code = k, c_description = JStr d, min_price = m,
              match_score = count_matches kws (lower d),
              c_revenue_code = e_revenue_code e\<rparr>)"
proof (cases "2 \<le> count_matches kws (lower d)")
  case False
  then show ?thesis by (simp add: candidate_of_def assms bind_e_def Let_def)
next
  case True
  show ?thesis
  proof (cases "min_gross (e_standard_charges e)")
    case (Inl err)
    with True show ?thesis by (auto simp add: candidate_of_def assms bind_e_def Let_def)
  next
    case (Inr m)
    show ?thesis
    proof (cases "fl_lt m max_price")
      case lt: True
      with Inr have "truthy (e_standard_charges e)" by (rule min_gross_truthy)
      with True Inr lt show ?thesis
        by (auto simp add: candidate_of_def assms bind_e_def Let_def)
    next
      case False
      with True Inr show ?thesis
        by (auto simp add: candidate_of_def assms bind_e_def Let_def)
    qed
  qed
qed

lemma candidate_of_no_string:
  assumes "\<forall>d. e_description e \<noteq> JStr d"
  shows "candidate_of kws max_price k e = Inl AttributeError"
  using assms by (cases "e_description e") (simp_all add: candidate_of_def bind_e_def)

lemma similar_codes_each:
  "similar_codes kws max_price db = Inr cs \<Longrightarrow> (k, e) \<in> set db \<Longrightarrow>
   \<exists>c. candidate_of kws max_price k e = Inr c"
proof (induction db arbitrary: cs)
  case Nil
  then show ?case by simp
next
  case (Cons ke db)
  obtain k' e' where ke: "ke = (k', e')" by (cases ke)
  from Cons.prems(1) ke obtain c cs' where
    c: "candidate_of kws max_price k' e' = Inr c"
    and cs': "similar_codes kws max_price db = Inr cs'"
    by (auto simp: bind_e_Inr)
  from Cons.prems(2) ke have "(k, e) = (k', e') \<or> (k, e) \<in> set db" by auto
  then show ?case
  proof
    assume "(k, e) = (k', e')"
    with c show ?thesis by auto
  next
    assume "(k, e) \<in> set db"
    with cs' show ?thesis by (rule Cons.IH)
  qed
qed

lemma similar_codes_set:
  "similar_codes kws max_price db = Inr cs \<Longrightarrow>
   c \<in> set cs \<longleftrightarrow> (\<exists>(k, e) \<in> set db. candidate_of kws max_price k e = Inr (Some c))"
proof (induction db arbitrary: cs)
  case Nil
  then show ?case by auto
next
  case (Cons ke db)
  obtain k' e' where ke: "ke = (k', e')" by (cases ke)
  from Cons.prems ke obtain copt cs' where
    c: "candidate_of kws max_price k' e' = Inr copt"
    and cs': "similar_codes kws max_price db = Inr cs'"
    and cs: "cs = (case copt of None \<Rightarrow> cs' | Some x \<Rightarrow> x # cs')"
    by (auto simp: bind_e_Inr)
  from Cons.IH [OF cs']
  have ih: "c \<in> set cs' \<longleftrightarrow> (\<exists>(k, e) \<in> set db. candidate_of kws max_price k e = Inr (Some c))" .
  show ?case
  proof (cases copt)
    case None
    with c cs ih ke show ?thesis by auto
  next
    case (Some x)
    with c cs ih ke show ?thesis by auto
  qed
qed

lemma similar_codes_priced:
  assumes "similar_codes kws max_price db = Inr cs" and "c \<in> set cs"
  shows "fl_lt (min_price c) max_price"
proof -
  from similar_codes_set [OF assms(1)] assms(2) obtain k e where
    "candidate_of kws max_price k e = Inr (Some c)" by auto
  then show ?thesis
    by (auto simp: candidate_of_def bind_e_Inr Let_def split: if_splits)
qed

lemma keywords_knee_brace: "keywords_of ''knee brace'' = [''knee'', ''brace'']"
  by (simp add: keywords_of_def split_def is_space_def lower_def lower_char_def common_words_def)

lemma keywords_knee_brace_hinged:
  "keywords_of ''knee brace hinged'' = [''knee'', ''brace'', ''hinged'']"
  by (simp add: keywords_of_def split_def is_space_def lower_def lower_char_def common_words_def)


lemma lower_knee_brace: "lower ''Knee brace'' = ''knee brace''"
  by (simp add: lower_def lower_char_def)

lemma lower_knee_brace_hinged: "lower ''Knee brace hinged'' = ''knee brace hinged''"
  by (simp add: lower_def lower_char_def)


lemma small_int_float: "\<bar>p\<bar> < 100 \<Longrightarrow> \<bar>p\<bar> < float_int_bound"
  by (simp add: float_int_bound_def)

lemma min_gross_brace:
  "p \<noteq> 0 \<Longrightarrow> \<bar>p\<bar> < 100 \<Longrightarrow>
   min_gross (JList [JDict [(''gross_charge'', JInt p)]]) = Inr (Fin (of_int p))"
  by (simp add: min_gross_def bind_e_def small_int_float)

lemma candidate_brace:
  assumes "0 < p" and "p < 100" and "2 \<le> count_matches kws (lower d)"
  shows "candidate_of kws (Fin 100) (JStr c) (snd (brace_entry c d p)) =
           Inr (Some (brace_candidate c d p (count_matches kws (lower d))))"
proof -
  let ?e = "snd (brace_entry c d p)"
  have d: "e_description ?e = JStr d" by (simp add: brace_entry_def)
  have m: "min_gross (e_standard_charges ?e) = Inr (Fin (of_int p))"
    using assms(1,2) min_gross_brace [of p] by (simp add: brace_entry_def)
  have lt: "fl_lt (Fin (of_int p)) (Fin 100)" using assms(2) by simp
  have r: "e_revenue_code ?e = JNull" by (simp add: brace_entry_def)
  show ?thesis
    unfolding candidate_of_Some [OF d] using assms(3) m lt r
    by (simp add: brace_candidate_def)
qed


lemma matches_3a: "count_matches [''knee'', ''brace'', ''hinged''] ''knee brace'' = 2"
  by (simp add: count_matches_def)

lemma matches_3b: "count_matches [''knee'', ''brace'', ''hinged''] ''knee brace hinged'' = 3"
  by (simp add: count_matches_def)




lemma similar_codes_Cons_brace:
  assumes "0 < p" and "p < 100" and "2 \<le> count_matches kws (lower d)"
    and "similar_codes kws (Fin 100) db = Inr cs"
  shows "similar_codes kws (Fin 100) (brace_entry c d p # db) =
           Inr (brace_candidate c d p (count_matches kws (lower d)) # cs)"
proof -
  have "brace_entry c d p = (JStr c, snd (brace_entry c d p))" by (simp add: brace_entry_def)
  then have "similar_codes kws (Fin 100) (brace_entry c d p # db) =
      bind_e (candidate_of kws (Fin 100) (JStr c) (snd (brace_entry c d p))) (\<lambda>c.
      bind_e (similar_codes kws (Fin 100) db) (\<lambda>cs.
        Inr (case c of None \<Rightarrow> cs | Some x \<Rightarrow> x # cs)))"
    by (metis similar_codes.simps(2))
  then show ?thesis
    by (simp add: candidate_brace [OF assms(1,2,3)] assms(4) bind_e_def)
qed


lemma key_lt_brace:
  "key_lt (brace_candidate c d p m) (brace_candidate c' d' p' m') =
     (if m \<noteq> m' then m' < m else p < p')"
  by (auto simp: key_lt_def brace_candidate_def)




lemma similar_three:
  "similar_codes [''knee'', ''brace'', ''hinged''] (Fin 100) three_braces =
     Inr [brace_candidate ''K1'' ''Knee brace'' 30 2, brace_candidate ''K2'' ''Knee brace'' 20 2,
          brace_candidate ''K3'' ''Knee brace hinged'' 50 3]"
proof -
  note step2 = similar_codes_Cons_brace
    [where kws = "[''knee'', ''brace'', ''hinged'']" and d = "''Knee brace''",
      unfolded lower_knee_brace matches_3a]
  note step3 = similar_codes_Cons_brace
    [where kws = "[''knee'', ''brace'', ''hinged'']" and d = "''Knee brace hinged''",
      unfolded lower_knee_brace_hinged matches_3b]
  have s0: "similar_codes [''knee'', ''brace'', ''hinged''] (Fin 100) [] = Inr []" by simp
  have s3: "similar_codes [''knee'', ''brace'', ''hinged''] (Fin 100)
      [brace_entry ''K3'' ''Knee brace hinged'' 50] =
      Inr [brace_candidate ''K3'' ''Knee brace hinged'' 50 3]"
    by (rule step3 [OF _ _ _ s0]) simp_all
  have s2: "similar_codes [''knee'', ''brace'', ''hinged''] (Fin 100)
      [brace_entry ''K2'' ''Knee brace'' 20, brace_entry ''K3'' ''Knee brace hinged'' 50] =
      Inr [brace_candidate ''K2'' ''Knee brace'' 20 2,
           brace_candidate ''K3'' ''Knee brace hinged'' 50 3]"
    by (rule step2 [OF _ _ _ s3]) simp_all
  show ?thesis unfolding three_braces_def
    by (rule step2 [OF _ _ _ s2]) simp_all
qed

lemma sort_three:
  "sort_cands
     [brace_candidate ''K1'' ''Knee brace'' 30 2, brace_candidate ''K2'' ''Knee brace'' 20 2,
      brace_candidate ''K3'' ''Knee brace hinged'' 50 3] =
     [brace_candidate ''K3'' ''Knee brace hinged'' 50 3, brace_candidate ''K2'' ''Knee brace'' 20 2,
      brace_candidate ''K1'' ''Knee brace'' 30 2]"
  by (simp add: sort_cands_def key_lt_brace)

lemma find_three:
  "find_similar_cheaper_codes three_braces ''knee brace hinged'' (Fin 100) 5 =
     Inr [brace_candidate ''K3'' ''Knee brace hinged'' 50 3,
          brace_candidate ''K2'' ''Knee brace'' 20 2, brace_candidate ''K1'' ''Knee brace'' 30 2]"
  by (simp add: find_similar_cheaper_codes_def keywords_knee_brace_hinged similar_three
      sort_three bind_e_def py_slice_to_def)




lemma find_similar_cases:
  assumes "find_similar_cheaper_codes db description max_price limit = Inr res"
  shows "res = [] \<or>
    (keywords_of description \<noteq> [] \<and>
     (\<exists>cs. similar_codes (keywords_of description) max_price db = Inr cs \<and>
           res = py_slice_to limit (sort_cands cs)))"
  using assms
  by (auto simp: find_similar_cheaper_codes_def bind_e_Inr split: if_splits)

text \<open>
  Claim C2. Whenever \<^verbatim>\<open>find_similar_cheaper_codes\<close> returns a list, the list is in the
  order of the specification: of two elements the earlier one has the greater match
  count, or the same match count and a minimum price that is less or equal. For a limit
  that is not negative, as the default 5, the list has at most \<^verbatim>\<open>limit\<close> elements.
\<close>

theorem find_similar_sorted:
  "find_similar_cheaper_codes db description max_price limit = Inr res \<Longrightarrow>
   sorted_wrt ranked_before res \<and> (0 \<le> limit \<longrightarrow> int (length res) \<le> limit)"
proof -
  assume a: "find_similar_cheaper_codes db description max_price limit = Inr res"
  from find_similar_cases [OF a] show ?thesis
  proof
    assume "res = []"
    then show ?thesis by simp
  next
    assume "keywords_of description \<noteq> [] \<and>
     (\<exists>cs. similar_codes (keywords_of description) max_price db = Inr cs \<and>
           res = py_slice_to limit (sort_cands cs))"
    then obtain cs where cs: "similar_codes (keywords_of description) max_price db = Inr cs"
      and res: "res = py_slice_to limit (sort_cands cs)" by blast
    have "\<forall>c \<in> set cs. min_price c \<noteq> NaN"
      using similar_codes_priced [OF cs] fl_lt_not_NaN by blast
    then have "sorted_wrt ranked_before (sort_cands cs)" by (rule sorted_sort_cands)
    then have "sorted_wrt ranked_before res" unfolding res by (rule sorted_py_slice_to)
    moreover have "0 \<le> limit \<longrightarrow> int (length res) \<le> limit"
      unfolding res by (simp add: length_py_slice_to)
    ultimately show ?thesis by simp
  qed
qed

theorem find_similar_sorted_witness:
  "find_similar_cheaper_codes three_braces ''knee brace hinged'' (Fin 100) 5 =
     Inr [brace_candidate ''K3'' ''Knee brace hinged'' 50 3,
          brace_candidate ''K2'' ''Knee brace'' 20 2, brace_candidate ''K1'' ''Knee brace'' 30 2] \<and>
   (0::int) \<le> 5 \<and>
   sorted_wrt ranked_before
     [brace_candidate ''K3'' ''Knee brace hinged'' 50 3,
      brace_candidate ''K2'' ''Knee brace'' 20 2, brace_candidate ''K1'' ''Knee brace'' 30 2] \<and>
   int (length [brace_candidate ''K3'' ''Knee brace hinged'' 50 3,
      brace_candidate ''K2'' ''Knee brace'' 20 2, brace_candidate ''K1'' ''Knee brace'' 30 2]) \<le> 5"
  using find_similar_sorted [OF find_three] find_three by simp

lemma keywords_of_Nil: "keywords_of [] = []"
  by (simp add: keywords_of_def split_def)




lemma similar_codes_raises:
  assumes "(k, e) \<in> set db" and "candidate_of kws max_price k e = Inl err"
  shows "\<exists>err'. similar_codes kws max_price db = Inl err'"
proof (cases "similar_codes kws max_price db")
  case (Inl err')
  then show ?thesis by blast
next
  case (Inr cs)
  from similar_codes_each [OF Inr assms(1)] assms(2) show ?thesis by simp
qed

lemma find_similar_raises:
  assumes "(k, e) \<in> set db" and "\<forall>d. e_description e \<noteq> JStr d"
    and "keywords_of description \<noteq> []"
  shows "\<exists>err. find_similar_cheaper_codes db description max_price limit = Inl err"
proof -
  from assms(2) have "candidate_of (keywords_of description) max_price k e = Inl AttributeError"
    by (rule candidate_of_no_string)
  with assms(1) obtain err where
    "similar_codes (keywords_of description) max_price db = Inl err"
    using similar_codes_raises by blast
  moreover from assms(3) have "description \<noteq> []" using keywords_of_Nil by auto
  ultimately show ?thesis using assms(3)
    by (simp add: find_similar_cheaper_codes_def bind_e_def)
qed

lemma find_similar_total_strings:
  assumes "\<forall>description max_price limit.
             \<exists>res. find_similar_cheaper_codes db description max_price limit = Inr res"
    and "(k, e) \<in> set db"
  shows "\<exists>d. e_description e = JStr d"
proof (rule ccontr)
  assume "\<not> (\<exists>d. e_description e = JStr d)"
  then have "\<forall>d. e_description e \<noteq> JStr d" by simp
  from find_similar_raises [OF assms(2) this, of "''knee brace''" "Fin 100" 5]
  obtain err where "find_similar_cheaper_codes db ''knee brace'' (Fin 100) 5 = Inl err"
    by (auto simp: keywords_knee_brace)
  with assms(1) show False by (metis Inl_Inr_False)
qed

lemma index_record_without_description:
  "index_data (JDict [(''standard_charge_information'', JList [record_without_description])]) [] =
     Completed [(JStr ''X0001'', entry_without_description)]"
  by (simp add: index_data_def index_entry_def index_code_def make_entry_def then_do_def
      bind_e_def db_find_def record_without_description_def entry_without_description_def)


text \<open>
  Claim C10. A dataset record that carries an HCPCS code and no description is indexed
  with the description \<^verbatim>\<open>None\<close>. With such an entry in the index, the lookup of its
  code raises (\<open>TypeError\<close>, from slicing \<^verbatim>\<open>None\<close>) whatever the filters, and
  \<^verbatim>\<open>find_similar_cheaper_codes\<close> raises for every query that has a significant keyword,
  so it is not total. If both operations return for all arguments, then every entry's
  description is a string.
\<close>

theorem null_description_raises:
  "(db_find db (JStr code) = Inr (Some entry) \<and> e_description entry = JNull \<longrightarrow>
      lookup_hcpcs_code db code setting billing_class = Inl TypeError) \<and>
   ((k, e) \<in> set db \<and> e_description e = JNull \<and> keywords_of description \<noteq> [] \<longrightarrow>
      (\<exists>err. find_similar_cheaper_codes db description max_price limit = Inl err)) \<and>
   ((k, e) \<in> set db \<and> e_description e = JNull \<longrightarrow>
      (\<exists>err. find_similar_cheaper_codes db ''knee brace'' max_price limit = Inl err)) \<and>
   ((\<forall>c s b. \<exists>r. lookup_hcpcs_code db c s b = Inr r) \<and>
    (\<forall>d p l. \<exists>res. find_similar_cheaper_codes db d p l = Inr res) \<longrightarrow>
      (\<forall>(k', e') \<in> set db. \<exists>d. e_description e' = JStr d)) \<and>
   index_data (JDict [(''standard_charge_information'', JList [record_without_description])]) [] =
     Completed [(JStr ''X0001'', entry_without_description)] \<and>
   e_description entry_without_description = JNull"
proof (intro conjI impI)
  show "lookup_hcpcs_code db code setting billing_class = Inl TypeError"
    if "db_find db (JStr code) = Inr (Some entry) \<and> e_description entry = JNull"
    using that by (simp add: lookup_null_description)
  show "\<exists>err. find_similar_cheaper_codes db description max_price limit = Inl err"
    if "(k, e) \<in> set db \<and> e_description e = JNull \<and> keywords_of description \<noteq> []"
    using that find_similar_raises [of k e db description max_price limit] by simp
  show "\<exists>err. find_similar_cheaper_codes db ''knee brace'' max_price limit = Inl err"
    if "(k, e) \<in> set db \<and> e_description e = JNull"
    using that find_similar_raises [of k e db "''knee brace''" max_price limit]
    by (simp add: keywords_knee_brace)
  show "\<forall>(k', e') \<in> set db. \<exists>d. e_description e' = JStr d"
    if "(\<forall>c s b. \<exists>r. lookup_hcpcs_code db c s b = Inr r) \<and>
        (\<forall>d p l. \<exists>res. find_similar_cheaper_codes db d p l = Inr res)"
    using that find_similar_total_strings [of db] by blast
  show "index_data (JDict [(''standard_charge_information'', JList [record_without_description])]) [] =
     Completed [(JStr ''X0001'', entry_without_description)]"
    by (rule index_record_without_description)
  show "e_description entry_without_description = JNull"
    by (simp add: entry_without_description_def)
qed

theorem null_description_raises_witness:
  "db_find [(JStr ''X0001'', entry_without_description)] (JStr ''X0001'') =
     Inr (Some entry_without_description) \<and>
   e_description entry_without_description = JNull \<and>
   lookup_hcpcs_code [(JStr ''X0001'', entry_without_description)] ''X0001'' None None =
     Inl TypeError \<and>
   (JStr ''X0001'', entry_without_description) \<in> set [(JStr ''X0001'', entry_without_description)] \<and>
   keywords_of ''knee brace'' \<noteq> [] \<and>
   (\<exists>err. find_similar_cheaper_codes [(JStr ''X0001'', entry_without_description)]
            ''knee brace'' (Fin 100) 5 = Inl err)"
proof -
  let ?db = "[(JStr ''X0001'', entry_without_description)]"
  have h1: "db_find ?db (JStr ''X0001'') = Inr (Some entry_without_description)"
    by (simp add: db_find_def bind_e_def)
  have h2: "e_description entry_without_description = JNull"
    by (simp add: entry_without_description_def)
  have h3: "(JStr ''X0001'', entry_without_description) \<in> set ?db" by simp
  have h4: "keywords_of ''knee brace'' \<noteq> []" by (simp add: keywords_knee_brace)
  note t = null_description_raises [of ?db "''X0001''" entry_without_description None None
      "JStr ''X0001''" entry_without_description "''knee brace''" "Fin 100" 5]
  from t h1 h2 have r1: "lookup_hcpcs_code ?db ''X0001'' None None = Inl TypeError" by blast
  from t h3 h2 h4
  have r2: "\<exists>err. find_similar_cheaper_codes ?db ''knee brace'' (Fin 100) 5 = Inl err" by blast
  show ?thesis by (intro conjI) (rule h1 h2 h3 h4 r1 r2)+
qed

section \<open>Properties of the index\<close>

lemma index_code_cases:
  "index_of (index_code entry codes ci db) = db \<or>
   (\<exists>code e. index_code entry codes ci db = Completed (db @ [(code, e)]) \<and>
      db_find db code = Inr None \<and> truthy code \<and>
      py_get ci ''type'' JNull = Inr (JStr ''HCPCS'') \<and>
      py_get ci ''code'' JNull = Inr code \<and>
      make_entry entry codes code = Inr e)"
  by (auto simp: index_code_def then_do_def split: sum.splits)

lemma db_find_None_fresh:
  assumes "db_find db code = Inr None"
  shows "key_of code \<notin> set (map (\<lambda>ke. key_of (fst ke)) db)"
proof -
  from assms obtain h where h: "key_of code = Inr h"
    and f: "find (\<lambda>ke. key_of (fst ke) = Inr h) db = None"
    by (auto simp: db_find_def bind_e_Inr)
  from f have "\<forall>ke \<in> set db. key_of (fst ke) \<noteq> Inr h" by (auto simp add: find_None_iff)
  with h show ?thesis by auto
qed

lemma distinct_index_code:
  assumes "distinct (map (\<lambda>ke. key_of (fst ke)) db)"
  shows "distinct (map (\<lambda>ke. key_of (fst ke)) (index_of (index_code entry codes ci db)))"
  using index_code_cases [of entry codes ci db]
proof
  assume "index_of (index_code entry codes ci db) = db"
  with assms show ?thesis by simp
next
  assume "\<exists>code e. index_code entry codes ci db = Completed (db @ [(code, e)]) \<and>
      db_find db code = Inr None \<and> truthy code \<and>
      py_get ci ''type'' JNull = Inr (JStr ''HCPCS'') \<and>
      py_get ci ''code'' JNull = Inr code \<and>
      make_entry entry codes code = Inr e"
  then obtain code e where r: "index_code entry codes ci db = Completed (db @ [(code, e)])"
    and n: "db_find db code = Inr None" by blast
  from db_find_None_fresh [OF n] assms r show ?thesis by simp
qed

lemma extends_index_code: "\<exists>new. index_of (index_code entry codes ci db) = db @ new"
  using index_code_cases [of entry codes ci db] by auto

lemma distinct_index_codes:
  "distinct (map (\<lambda>ke. key_of (fst ke)) db) \<Longrightarrow>
   distinct (map (\<lambda>ke. key_of (fst ke)) (index_of (index_codes entry codes infos db)))"
proof (induction infos arbitrary: db)
  case Nil
  then show ?case by simp
next
  case (Cons ci infos)
  from distinct_index_code [OF Cons.prems, of entry codes ci]
  have d: "distinct (map (\<lambda>ke. key_of (fst ke)) (index_of (index_code entry codes ci db)))" .
  show ?case
  proof (cases "index_code entry codes ci db")
    case (Completed db')
    with d Cons.IH [of db'] show ?thesis by simp
  next
    case (Raised e db')
    with d show ?thesis by simp
  qed
qed

lemma extends_index_codes: "\<exists>new. index_of (index_codes entry codes infos db) = db @ new"
proof (induction infos arbitrary: db)
  case Nil
  show ?case by simp
next
  case (Cons ci infos)
  obtain new where n: "index_of (index_code entry codes ci db) = db @ new"
    using extends_index_code by blast
  show ?case
  proof (cases "index_code entry codes ci db")
    case (Completed db')
    with n Cons.IH [of db'] show ?thesis by auto
  next
    case (Raised e db')
    with n show ?thesis by simp
  qed
qed

lemma distinct_index_entry:
  "distinct (map (\<lambda>ke. key_of (fst ke)) db) \<Longrightarrow>
   distinct (map (\<lambda>ke. key_of (fst ke)) (index_of (index_entry entry db)))"
  by (auto simp: index_entry_def then_do_def distinct_index_codes split: sum.splits)

lemma extends_index_entry: "\<exists>new. index_of (index_entry entry db) = db @ new"
  by (auto simp: index_entry_def then_do_def extends_index_codes split: sum.splits)

lemma distinct_index_entries:
  "distinct (map (\<lambda>ke. key_of (fst ke)) db) \<Longrightarrow>
   distinct (map (\<lambda>ke. key_of (fst ke)) (index_of (index_entries recs db)))"
proof (induction recs arbitrary: db)
  case Nil
  then show ?case by simp
next
  case (Cons r recs)
  from distinct_index_entry [OF Cons.prems, of r]
  have d: "distinct (map (\<lambda>ke. key_of (fst ke)) (index_of (index_entry r db)))" .
  show ?case
  proof (cases "index_entry r db")
    case (Completed db')
    with d Cons.IH [of db'] show ?thesis by simp
  next
    case (Raised e db')
    with d show ?thesis by simp
  qed
qed

lemma extends_index_entries: "\<exists>new. index_of (index_entries recs db) = db @ new"
proof (induction recs arbitrary: db)
  case Nil
  show ?case by simp
next
  case (Cons r recs)
  obtain new where n: "index_of (index_entry r db) = db @ new"
    using extends_index_entry by blast
  show ?case
  proof (cases "index_entry r db")
    case (Completed db')
    with n Cons.IH [of db'] show ?thesis by auto
  next
    case (Raised e db')
    with n show ?thesis by simp
  qed
qed

lemma index_entries_append:
  "index_entries (recs @ rest) db =
     (case index_entries recs db of
        Raised e db' \<Rightarrow> Raised e db'
      | Completed db' \<Rightarrow> index_entries rest db')"
  by (induction recs arbitrary: db) (simp_all split: outcome.splits)

lemma later_records_keep:
  "\<exists>new. index_of (index_entries (recs @ rest) db) = index_of (index_entries recs db) @ new"
proof (cases "index_entries recs db")
  case (Completed db')
  then show ?thesis using extends_index_entries [of rest db'] by (simp add: index_entries_append)
next
  case (Raised e db')
  then show ?thesis by (simp add: index_entries_append)
qed

lemma distinct_index_data:
  "distinct (map (\<lambda>ke. key_of (fst ke)) (index_of (index_data data [])))"
  by (auto simp: index_data_def then_do_def distinct_index_entries split: sum.splits)

lemma py_get_Inr_dict: "py_get ci k d = Inr v \<Longrightarrow> is_dict ci"
  by (cases ci) simp_all

lemma find_snoc:
  "find P (xs @ [x]) = (case find P xs of Some y \<Rightarrow> Some y | None \<Rightarrow> if P x then Some x else None)"
  by (induction xs) simp_all

lemma db_find_str_append:
  "db_find (db @ [(code, e)]) (JStr c) =
     (case db_find db (JStr c) of
        Inr (Some e') \<Rightarrow> Inr (Some e')
      | _ \<Rightarrow> if code = JStr c then Inr (Some e) else Inr None)"
  by (simp add: db_find_str find_snoc split: option.splits)

lemma index_code_keeps:
  assumes "index_code entry codes ci db = Completed db'"
    and "db_find db (JStr c) = Inr (Some e)"
  shows "db_find db' (JStr c) = Inr (Some e)"
  using index_code_cases [of entry codes ci db] assms
  by (auto simp: db_find_str_append)

lemma index_code_inserts:
  assumes "index_code entry codes ci db = Completed db'"
    and "db_find db (JStr c) = Inr None"
    and "field ci ''type'' = JStr ''HCPCS''" and "field ci ''code'' = JStr c" and "c \<noteq> []"
  shows "\<exists>e. make_entry entry codes (JStr c) = Inr e \<and> db_find db' (JStr c) = Inr (Some e)"
proof -
  from assms(1) obtain t where "py_get ci ''type'' JNull = Inr t"
    by (auto simp: index_code_def then_do_def split: sum.splits)
  then have "is_dict ci" by (rule py_get_Inr_dict)
  then have g: "py_get ci ''type'' JNull = Inr (JStr ''HCPCS'')"
    "py_get ci ''code'' JNull = Inr (JStr c)"
    using assms(3,4) by (simp_all add: py_get_dict)
  from assms(1,2,5) g obtain e where
    "make_entry entry codes (JStr c) = Inr e" and "db' = db @ [(JStr c, e)]"
    by (auto simp: index_code_def then_do_def split: sum.splits)
  with assms(2) show ?thesis by (simp add: db_find_str_append)
qed

lemma index_code_skips:
  assumes "index_code entry codes ci db = Completed db'"
    and "db_find db (JStr c) = Inr None"
    and "\<not> (field ci ''type'' = JStr ''HCPCS'' \<and> field ci ''code'' = JStr c \<and> c \<noteq> [])"
  shows "db_find db' (JStr c) = Inr None"
  using index_code_cases [of entry codes ci db]
proof
  assume "index_of (index_code entry codes ci db) = db"
  with assms(1,2) show ?thesis by simp
next
  assume "\<exists>code e. index_code entry codes ci db = Completed (db @ [(code, e)]) \<and>
      db_find db code = Inr None \<and> truthy code \<and>
      py_get ci ''type'' JNull = Inr (JStr ''HCPCS'') \<and>
      py_get ci ''code'' JNull = Inr code \<and>
      make_entry entry codes code = Inr e"
  then obtain code e where r: "index_code entry codes ci db = Completed (db @ [(code, e)])"
    and t: "truthy code" and g1: "py_get ci ''type'' JNull = Inr (JStr ''HCPCS'')"
    and g2: "py_get ci ''code'' JNull = Inr code" by blast
  from g1 have d: "is_dict ci" by (rule py_get_Inr_dict)
  from d g1 g2 have "field ci ''type'' = JStr ''HCPCS''" "field ci ''code'' = code"
    by (simp_all add: py_get_dict)
  with assms(3) t have "code \<noteq> JStr c" by auto
  with r assms(1,2) show ?thesis by (simp add: db_find_str_append)
qed

lemma carried_Nil: "\<not> JStr c \<in> set (tagged_hcpcs [])"
  by (simp add: tagged_hcpcs_def)

lemma carried_Cons:
  "JStr c \<in> set (tagged_hcpcs (ci # infos)) \<longleftrightarrow>
     (field ci ''type'' = JStr ''HCPCS'' \<and> field ci ''code'' = JStr c \<and> c \<noteq> []) \<or> JStr c \<in> set (tagged_hcpcs infos)"
  by (auto simp: tagged_hcpcs_def)

lemma db_find_str_cases:
  "(\<exists>e. db_find db (JStr c) = Inr (Some e)) \<or> db_find db (JStr c) = Inr None"
  by (cases "find (\<lambda>ke. fst ke = JStr c) db") (simp_all add: db_find_str)

lemma index_codes_keeps:
  "index_codes entry codes infos db = Completed db' \<Longrightarrow>
   db_find db (JStr c) = Inr (Some e) \<Longrightarrow> db_find db' (JStr c) = Inr (Some e)"
proof (induction infos arbitrary: db)
  case Nil
  then show ?case by simp
next
  case (Cons ci infos)
  from Cons.prems(1) obtain db1 where s: "index_code entry codes ci db = Completed db1"
    and r: "index_codes entry codes infos db1 = Completed db'"
    by (auto split: outcome.splits)
  from index_code_keeps [OF s Cons.prems(2)] have "db_find db1 (JStr c) = Inr (Some e)" .
  with r show ?case by (rule Cons.IH)
qed

lemma index_codes_result:
  "index_codes entry codes infos db = Completed db' \<Longrightarrow>
   db_find db (JStr c) = Inr None \<Longrightarrow>
   (if JStr c \<in> set (tagged_hcpcs infos)
    then \<exists>e. make_entry entry codes (JStr c) = Inr e \<and> db_find db' (JStr c) = Inr (Some e)
    else db_find db' (JStr c) = Inr None)"
proof (induction infos arbitrary: db)
  case Nil
  then show ?case by (simp add: carried_Nil)
next
  case (Cons ci infos)
  from Cons.prems(1) obtain db1 where s: "index_code entry codes ci db = Completed db1"
    and r: "index_codes entry codes infos db1 = Completed db'"
    by (auto split: outcome.splits)
  show ?case
  proof (cases "field ci ''type'' = JStr ''HCPCS'' \<and> field ci ''code'' = JStr c \<and> c \<noteq> []")
    case True
    with index_code_inserts [OF s Cons.prems(2)] obtain e where
      m: "make_entry entry codes (JStr c) = Inr e" and f: "db_find db1 (JStr c) = Inr (Some e)"
      by blast
    from index_codes_keeps [OF r f] m True show ?thesis by (simp add: carried_Cons)
  next
    case False
    from index_code_skips [OF s Cons.prems(2) False] have "db_find db1 (JStr c) = Inr None" .
    from Cons.IH [OF r this] False show ?thesis by (auto simp: carried_Cons)
  qed
qed


lemma index_entry_codes:
  assumes "index_entry r db = Completed db'"
  shows "index_codes r (record_codes r) (record_codes r) db = Completed db'"
  using assms
  by (auto simp: index_entry_def then_do_def record_codes_def bind_e_def split: sum.splits)

lemma index_entry_keeps:
  assumes "index_entry r db = Completed db'" and "db_find db (JStr c) = Inr (Some e)"
  shows "db_find db' (JStr c) = Inr (Some e)"
  using index_codes_keeps [OF index_entry_codes [OF assms(1)] assms(2)] .

lemma index_entry_result:
  assumes "index_entry r db = Completed db'" and "db_find db (JStr c) = Inr None"
  shows "if JStr c \<in> set (hcpcs_codes r)
    then \<exists>e. record_entry r (JStr c) = Inr e \<and> db_find db' (JStr c) = Inr (Some e)
    else db_find db' (JStr c) = Inr None"
  using index_codes_result [OF index_entry_codes [OF assms(1)] assms(2)]
  by (simp add: hcpcs_codes_def record_entry_def)

lemma index_entries_keeps:
  "index_entries recs db = Completed db' \<Longrightarrow>
   db_find db (JStr c) = Inr (Some e) \<Longrightarrow> db_find db' (JStr c) = Inr (Some e)"
proof (induction recs arbitrary: db)
  case Nil
  then show ?case by simp
next
  case (Cons r recs)
  from Cons.prems(1) obtain db1 where s: "index_entry r db = Completed db1"
    and t: "index_entries recs db1 = Completed db'"
    by (auto split: outcome.splits)
  from index_entry_keeps [OF s Cons.prems(2)] have "db_find db1 (JStr c) = Inr (Some e)" .
  with t show ?case by (rule Cons.IH)
qed

lemma index_entries_result:
  "index_entries recs db = Completed db' \<Longrightarrow>
   db_find db (JStr c) = Inr None \<Longrightarrow>
   (case find (\<lambda>r. JStr c \<in> set (hcpcs_codes r)) recs of
      None \<Rightarrow> db_find db' (JStr c) = Inr None
    | Some r \<Rightarrow> \<exists>e. record_entry r (JStr c) = Inr e \<and> db_find db' (JStr c) = Inr (Some e))"
proof (induction recs arbitrary: db)
  case Nil
  then show ?case by simp
next
  case (Cons r recs)
  from Cons.prems(1) obtain db1 where s: "index_entry r db = Completed db1"
    and t: "index_entries recs db1 = Completed db'"
    by (auto split: outcome.splits)
  show ?case
  proof (cases "JStr c \<in> set (hcpcs_codes r)")
    case True
    with index_entry_result [OF s Cons.prems(2)] obtain e where
      m: "record_entry r (JStr c) = Inr e" and f: "db_find db1 (JStr c) = Inr (Some e)"
      by auto
    from index_entries_keeps [OF t f] m True show ?thesis by simp
  next
    case False
    with index_entry_result [OF s Cons.prems(2)] have "db_find db1 (JStr c) = Inr None" by simp
    from Cons.IH [OF t this] False show ?thesis by simp
  qed
qed

lemma index_data_entries:
  assumes "index_data data db = Completed db'"
  shows "index_entries (dataset_records data) db = Completed db'"
  using assms
  by (auto simp: index_data_def then_do_def dataset_records_def bind_e_def split: sum.splits)

lemma record_entry_fields:
  assumes "record_entry r code = Inr e"
  shows "e_description e = field r ''description'' \<and>
         py_get r ''standard_charges'' (JList []) = Inr (e_standard_charges e) \<and>
         first_rc (record_codes r) = Inr (e_revenue_code e)"
proof -
  from assms obtain d sc rc where d: "py_get r ''description'' JNull = Inr d"
    and sc: "py_get r ''standard_charges'' (JList []) = Inr sc"
    and rc: "first_rc (record_codes r) = Inr rc"
    and e: "e = \<lparr>e_description = d, e_code = code, e_standard_charges = sc,
                 e_revenue_code = rc\<rparr>"
    by (auto simp: record_entry_def make_entry_def bind_e_Inr)
  from d have "is_dict r" by (rule py_get_Inr_dict)
  with d have "d = field r ''description''" by (simp add: py_get_dict)
  with sc rc e show ?thesis by simp
qed


lemma index_knee_record:
  "index_entry knee_record [] = Completed [(JStr ''L1810'', knee_entry)]"
  by (simp add: index_entry_def index_code_def make_entry_def then_do_def bind_e_def
      db_find_def knee_record_def knee_entry_def)

lemma index_later_record:
  "index_entry later_record [(JStr ''L1810'', knee_entry)] =
     Completed [(JStr ''L1810'', knee_entry)]"
  by (simp add: index_entry_def index_code_def then_do_def bind_e_def db_find_def
      later_record_def)

lemma index_not_a_record: "index_entry (JInt 42) db = Raised AttributeError db"
  by (simp add: index_entry_def then_do_def)

lemma index_two_records:
  "index_data (JDict [(''standard_charge_information'', JList [knee_record, later_record])]) [] =
     Completed [(JStr ''L1810'', knee_entry)]"
  by (simp add: index_data_def then_do_def index_knee_record index_later_record)

lemma index_broken_dataset:
  "index_data (JDict [(''standard_charge_information'', JList [knee_record, JInt 42])]) [] =
     Raised AttributeError [(JStr ''L1810'', knee_entry)]"
  by (simp add: index_data_def then_do_def index_knee_record index_not_a_record)

lemma hcpcs_codes_knee: "hcpcs_codes knee_record = [JStr ''L1810'']"
  by (simp add: hcpcs_codes_def tagged_hcpcs_def record_codes_def knee_record_def bind_e_def)

text \<open>
  Claim C4. Whatever the dataset, and whether or not the construction fails part-way, no
  two keys of the index are the same key of the dict. What the earlier records of a
  dataset have put into the index is not changed by the records that follow them. And
  after a construction that completes, a code is in the index exactly when a record
  carries it as an HCPCS code, and its entry is the one made from the first such record
  in dataset order: that record's description, price variants and revenue code.
\<close>

theorem index_first_wins:
  "distinct (map (\<lambda>ke. key_of (fst ke)) (index_of (index_data data []))) \<and>
   (\<exists>new. index_of (index_entries (recs @ later) []) = index_of (index_entries recs []) @ new) \<and>
   (index_data data [] = Completed db \<longrightarrow>
      (case find (\<lambda>r. JStr c \<in> set (hcpcs_codes r)) (dataset_records data) of
         None \<Rightarrow> db_find db (JStr c) = Inr None
       | Some r \<Rightarrow>
           \<exists>e. record_entry r (JStr c) = Inr e \<and> db_find db (JStr c) = Inr (Some e) \<and>
               e_description e = field r ''description'' \<and>
               py_get r ''standard_charges'' (JList []) = Inr (e_standard_charges e) \<and>
               first_rc (record_codes r) = Inr (e_revenue_code e)))"
proof (intro conjI impI)
  show "distinct (map (\<lambda>ke. key_of (fst ke)) (index_of (index_data data [])))"
    by (rule distinct_index_data)
  show "\<exists>new. index_of (index_entries (recs @ later) []) = index_of (index_entries recs []) @ new"
    by (rule later_records_keep)
  assume "index_data data [] = Completed db"
  then have e: "index_entries (dataset_records data) [] = Completed db"
    by (rule index_data_entries)
  have n: "db_find [] (JStr c) = Inr None" by (simp add: db_find_str)
  from index_entries_result [OF e n]
  show "case find (\<lambda>r. JStr c \<in> set (hcpcs_codes r)) (dataset_records data) of
         None \<Rightarrow> db_find db (JStr c) = Inr None
       | Some r \<Rightarrow>
           \<exists>e. record_entry r (JStr c) = Inr e \<and> db_find db (JStr c) = Inr (Some e) \<and>
               e_description e = field r ''description'' \<and>
               py_get r ''standard_charges'' (JList []) = Inr (e_standard_charges e) \<and>
               first_rc (record_codes r) = Inr (e_revenue_code e)"
    by (auto split: option.splits dest: record_entry_fields)
qed

theorem index_first_wins_witness:
  "index_data (JDict [(''standard_charge_information'', JList [knee_record, later_record])]) [] =
     Completed [(JStr ''L1810'', knee_entry)] \<and>
   find (\<lambda>r. JStr ''L1810'' \<in> set (hcpcs_codes r))
     (dataset_records (JDict [(''standard_charge_information'', JList [knee_record, later_record])])) =
     Some knee_record \<and>
   (\<exists>e. record_entry knee_record (JStr ''L1810'') = Inr e \<and>
        db_find [(JStr ''L1810'', knee_entry)] (JStr ''L1810'') = Inr (Some e) \<and>
        e_description e = JStr ''Knee brace adjustable'')"
proof -
  let ?data = "JDict [(''standard_charge_information'', JList [knee_record, later_record])]"
  have f: "find (\<lambda>r. JStr ''L1810'' \<in> set (hcpcs_codes r)) (dataset_records ?data) =
      Some knee_record"
    by (simp add: dataset_records_def bind_e_def hcpcs_codes_knee)
  have d: "field knee_record ''description'' = JStr ''Knee brace adjustable''"
    by (simp add: knee_record_def)
  from index_first_wins [of ?data "[]" "[]" "[(JStr ''L1810'', knee_entry)]" "''L1810''"]
    index_two_records
  have "case find (\<lambda>r. JStr ''L1810'' \<in> set (hcpcs_codes r)) (dataset_records ?data) of
         None \<Rightarrow> db_find [(JStr ''L1810'', knee_entry)] (JStr ''L1810'') = Inr None
       | Some r \<Rightarrow>
           \<exists>e. record_entry r (JStr ''L1810'') = Inr e \<and>
               db_find [(JStr ''L1810'', knee_entry)] (JStr ''L1810'') = Inr (Some e) \<and>
               e_description e = field r ''description'' \<and>
               py_get r ''standard_charges'' (JList []) = Inr (e_standard_charges e) \<and>
               first_rc (record_codes r) = Inr (e_revenue_code e)"
    by blast
  then have "\<exists>e. record_entry knee_record (JStr ''L1810'') = Inr e \<and>
        db_find [(JStr ''L1810'', knee_entry)] (JStr ''L1810'') = Inr (Some e) \<and>
        e_description e = JStr ''Knee brace adjustable''"
    by (auto simp add: f d)
  with index_two_records f show ?thesis by blast
qed



lemma fl_le_antisym: "fl_le a b \<Longrightarrow> fl_le b a \<Longrightarrow> a = b"
  by (cases a; cases b) (simp_all add: fl_le_def)



lemma least_of_unique:
  assumes "least_of m fs" and "least_of m' fs"
  shows "m = m'"
proof (cases "fs = []")
  case True
  with assms show ?thesis by (simp add: least_of_def)
next
  case False
  with assms have "m \<in> set fs" "m' \<in> set fs" "list_all (fl_le m) fs" "list_all (fl_le m') fs"
    by (simp_all add: least_of_def)
  then have "fl_le m m'" "fl_le m' m" by (simp_all add: list_all_iff)
  then show ?thesis by (rule fl_le_antisym)
qed















lemma load_inaccessible:
  "load_hcpcs_database (Inaccessible x) st =
     Propagated x (log_to Loading_from_path st)"
  by (simp add: load_hcpcs_database_def)

lemma load_absent:
  "load_hcpcs_database Absent st =
     Returned (st\<lparr>logged := logged st @ [Loading_from_path, Database_not_found]\<rparr>)"
  by (simp add: load_hcpcs_database_def log_to_def)

lemma load_unreadable:
  "load_hcpcs_database (Unreadable e) st =
     Returned (st\<lparr>logged := logged st @ [Loading_from_path, Error_loading e]\<rparr>)"
  by (simp add: load_hcpcs_database_def log_to_def)

lemma load_raised:
  assumes "index_data data (HCPCS_DATABASE st) = Raised err db"
  shows "load_hcpcs_database (Parsed data) st =
     Returned (st\<lparr>HCPCS_DATABASE := db,
        logged := logged st @ [Loading_from_path, Parsing_codes, Error_loading err]\<rparr>)"
  using assms by (simp add: load_hcpcs_database_def log_to_def)

lemma load_completed:
  assumes "index_data data (HCPCS_DATABASE st) = Completed db"
  shows "load_hcpcs_database (Parsed data) st =
     Returned (st\<lparr>HCPCS_DATABASE := db,
        logged := logged st @
          [Loading_from_path, Parsing_codes, Successfully_loaded (length db)]\<rparr>)"
  using assms by (simp add: load_hcpcs_database_def log_to_def)

lemma load_returns:
  assumes "\<forall>x. src \<noteq> Inaccessible x"
  shows "\<exists>st'. load_hcpcs_database src st = Returned st'"
proof (cases src)
  case (Inaccessible x)
  with assms show ?thesis by simp
next
  case Absent
  then show ?thesis by (simp add: load_absent)
next
  case (Unreadable e)
  then show ?thesis by (simp add: load_unreadable)
next
  case (Parsed data)
  show ?thesis
  proof (cases "index_data data (HCPCS_DATABASE st)")
    case (Completed db)
    with Parsed show ?thesis by (simp add: load_completed)
  next
    case (Raised err db)
    with Parsed show ?thesis by (simp add: load_raised)
  qed
qed

lemma index_data_not_dict: "\<not> is_dict data \<Longrightarrow> index_data data db = Raised AttributeError db"
  by (cases data) (simp_all add: index_data_def then_do_def)

lemma lookup_empty:
  "lookup_hcpcs_code [] code setting billing_class =
     Inr (Lookup_miss code ''Code not found in UCSF standard charges database'')"
  by (rule lookup_miss) simp

text \<open>
  Claim C5, as the code has it. Whenever the existence test of the file returns,
  \<^verbatim>\<open>load_hcpcs_database\<close> returns too: no error leaves it. When the file is absent, or is
  there and cannot be opened or decoded, the failure is logged as a warning or an error
  and the index stays empty, so every lookup returns not-found. When the file decodes
  and the loops raise on its content, as they do when the document is no object, the
  error is logged and the index is left as the loops had filled it when they raised: the
  entries of the records before the malformed one stay. When the loops complete, nothing
  but information is logged, whatever the document lacks. An exception of the existence
  test itself, which stands before the \<^verbatim>\<open>try\<close>, leaves the function.
\<close>

theorem load_failure_logged:
  "((\<forall>x. src \<noteq> Inaccessible x) \<longrightarrow>
      (\<exists>st. load_hcpcs_database src initial_state = Returned st)) \<and>
   (src = Absent \<or> src = Unreadable e \<longrightarrow>
      (\<exists>st. load_hcpcs_database src initial_state = Returned st \<and>
         HCPCS_DATABASE st = [] \<and>
         (\<exists>r \<in> set (logged st). level r = WARNING \<or> level r = ERROR) \<and>
         lookup_hcpcs_code (HCPCS_DATABASE st) code setting billing_class =
           Inr (Lookup_miss code ''Code not found in UCSF standard charges database''))) \<and>
   (index_data data [] = Raised err db \<longrightarrow>
      (\<exists>st. load_hcpcs_database (Parsed data) initial_state = Returned st \<and>
         HCPCS_DATABASE st = db \<and>
         Error_loading err \<in> set (logged st) \<and>
         level (Error_loading err) = ERROR)) \<and>
   (\<not> is_dict data \<longrightarrow> index_data data [] = Raised AttributeError []) \<and>
   (index_data data [] = Completed db \<longrightarrow>
      (\<exists>st. load_hcpcs_database (Parsed data) initial_state = Returned st \<and>
         HCPCS_DATABASE st = db \<and>
         list_all (\<lambda>r. level r = INFO) (logged st))) \<and>
   load_hcpcs_database (Inaccessible x) initial_state =
     Propagated x (log_to Loading_from_path initial_state)"
proof (intro conjI impI)
  assume "\<forall>x. src \<noteq> Inaccessible x"
  then show "\<exists>st. load_hcpcs_database src initial_state = Returned st"
    by (rule load_returns)
next
  assume "src = Absent \<or> src = Unreadable e"
  then show "\<exists>st. load_hcpcs_database src initial_state = Returned st \<and>
         HCPCS_DATABASE st = [] \<and>
         (\<exists>r \<in> set (logged st). level r = WARNING \<or> level r = ERROR) \<and>
         lookup_hcpcs_code (HCPCS_DATABASE st) code setting billing_class =
           Inr (Lookup_miss code ''Code not found in UCSF standard charges database'')"
    by (auto simp: load_absent load_unreadable initial_state_def lookup_empty)
next
  assume "index_data data [] = Raised err db"
  then have "index_data data (HCPCS_DATABASE initial_state) = Raised err db"
    by (simp add: initial_state_def)
  from load_raised [OF this]
  show "\<exists>st. load_hcpcs_database (Parsed data) initial_state = Returned st \<and>
         HCPCS_DATABASE st = db \<and>
         Error_loading err \<in> set (logged st) \<and>
         level (Error_loading err) = ERROR"
    by simp
next
  assume "\<not> is_dict data"
  then show "index_data data [] = Raised AttributeError []" by (rule index_data_not_dict)
next
  assume "index_data data [] = Completed db"
  then have "index_data data (HCPCS_DATABASE initial_state) = Completed db"
    by (simp add: initial_state_def)
  from load_completed [OF this]
  show "\<exists>st. load_hcpcs_database (Parsed data) initial_state = Returned st \<and>
         HCPCS_DATABASE st = db \<and>
         list_all (\<lambda>r. level r = INFO) (logged st)"
    by (simp add: initial_state_def)
next
  show "load_hcpcs_database (Inaccessible x) initial_state =
     Propagated x (log_to Loading_from_path initial_state)"
    by (rule load_inaccessible)
qed

theorem load_failure_logged_witness:
  "(Absent = Absent \<or> Absent = Unreadable OSError) \<and>
   (\<exists>st. load_hcpcs_database Absent initial_state = Returned st \<and>
      HCPCS_DATABASE st = [] \<and>
      (\<exists>r \<in> set (logged st). level r = WARNING \<or> level r = ERROR) \<and>
      lookup_hcpcs_code (HCPCS_DATABASE st) ''L1810'' None None =
        Inr (Lookup_miss ''L1810'' ''Code not found in UCSF standard charges database'')) \<and>
   index_data (JDict [(''standard_charge_information'', JList [knee_record, JInt 42])]) [] =
     Raised AttributeError [(JStr ''L1810'', knee_entry)] \<and>
   (\<exists>st. load_hcpcs_database
      (Parsed (JDict [(''standard_charge_information'', JList [knee_record, JInt 42])]))
      initial_state = Returned st \<and>
      HCPCS_DATABASE st = [(JStr ''L1810'', knee_entry)] \<and>
      Error_loading AttributeError \<in> set (logged st)) \<and>
   \<not> is_dict (JInt 42) \<and>
   index_data (JInt 42) [] = Raised AttributeError [] \<and>
   index_data (JDict []) [] = Completed [] \<and>
   (\<exists>st. load_hcpcs_database (Parsed (JDict [])) initial_state = Returned st \<and>
      HCPCS_DATABASE st = [] \<and>
      list_all (\<lambda>r. level r = INFO) (logged st)) \<and>
   load_hcpcs_database (Inaccessible PermissionError) initial_state =
     Propagated PermissionError (log_to Loading_from_path initial_state)"
proof -
  have h: "Absent = Absent \<or> Absent = Unreadable OSError" by simp
  note t = load_failure_logged [where src = Absent and e = OSError and code = "''L1810''"
      and setting = None and billing_class = None
      and data = "JDict [(''standard_charge_information'', JList [knee_record, JInt 42])]"
      and err = AttributeError and db = "[(JStr ''L1810'', knee_entry)]"
      and x = PermissionError]
  from t h have a: "\<exists>st. load_hcpcs_database Absent initial_state = Returned st \<and>
      HCPCS_DATABASE st = [] \<and>
      (\<exists>r \<in> set (logged st). level r = WARNING \<or> level r = ERROR) \<and>
      lookup_hcpcs_code (HCPCS_DATABASE st) ''L1810'' None None =
        Inr (Lookup_miss ''L1810'' ''Code not found in UCSF standard charges database'')"
    by blast
  from t index_broken_dataset have b: "\<exists>st. load_hcpcs_database
      (Parsed (JDict [(''standard_charge_information'', JList [knee_record, JInt 42])]))
      initial_state = Returned st \<and>
      HCPCS_DATABASE st = [(JStr ''L1810'', knee_entry)] \<and>
      Error_loading AttributeError \<in> set (logged st)"
    by blast
  from t have p: "load_hcpcs_database (Inaccessible PermissionError) initial_state =
     Propagated PermissionError (log_to Loading_from_path initial_state)"
    by blast
  have n: "\<not> is_dict (JInt 42)" by simp
  note u = load_failure_logged [where data = "JInt 42"]
  from u n have r: "index_data (JInt 42) [] = Raised AttributeError []" by blast
  have c: "index_data (JDict []) [] = Completed []"
    by (simp add: index_data_def then_do_def)
  note v = load_failure_logged [where data = "JDict []" and db = "[]"]
  from v c have d: "\<exists>st. load_hcpcs_database (Parsed (JDict [])) initial_state = Returned st \<and>
      HCPCS_DATABASE st = [] \<and>
      list_all (\<lambda>r. level r = INFO) (logged st)"
    by blast
  show ?thesis
    by (intro conjI) (rule h a index_broken_dataset b n r c d p)+
qed

text \<open>
  The claim as it was stated fails twice. The index is not left empty by every malformed
  document: when the second record of the dataset is a number, the failure is logged and
  the entry of the first record stays in the index. And not every malformed document is
  logged as a failure: a document without the list of records loads as a success with
  no code.
\<close>

theorem load_not_atomic_counterexample:
  "load_hcpcs_database
     (Parsed (JDict [(''standard_charge_information'', JList [knee_record, JInt 42])]))
     initial_state =
     Returned \<lparr>HCPCS_DATABASE = [(JStr ''L1810'', knee_entry)],
               logged = [Loading_from_path, Parsing_codes, Error_loading AttributeError]\<rparr> \<and>
   [(JStr ''L1810'', knee_entry)] \<noteq> ([] :: index) \<and>
   load_hcpcs_database (Parsed (JDict [])) initial_state =
     Returned \<lparr>HCPCS_DATABASE = [],
               logged = [Loading_from_path, Parsing_codes, Successfully_loaded 0]\<rparr>"
proof -
  have "index_data (JDict [(''standard_charge_information'', JList [knee_record, JInt 42])])
      (HCPCS_DATABASE initial_state) = Raised AttributeError [(JStr ''L1810'', knee_entry)]"
    by (simp add: initial_state_def index_broken_dataset)
  from load_raised [OF this]
  have a: "load_hcpcs_database
     (Parsed (JDict [(''standard_charge_information'', JList [knee_record, JInt 42])]))
     initial_state =
     Returned \<lparr>HCPCS_DATABASE = [(JStr ''L1810'', knee_entry)],
               logged = [Loading_from_path, Parsing_codes, Error_loading AttributeError]\<rparr>"
    by (simp add: initial_state_def)
  have "index_data (JDict []) (HCPCS_DATABASE initial_state) = Completed []"
    by (simp add: initial_state_def index_data_def then_do_def)
  from load_completed [OF this]
  have b: "load_hcpcs_database (Parsed (JDict [])) initial_state =
     Returned \<lparr>HCPCS_DATABASE = [],
               logged = [Loading_from_path, Parsing_codes, Successfully_loaded 0]\<rparr>"
    by (simp add: initial_state_def)
  have c: "[(JStr ''L1810'', knee_entry)] \<noteq> ([] :: index)" by simp
  show ?thesis
    by (intro conjI) (rule a c b)+
qed

end
